theory Spec2Isabelle
  imports Complex_Main
begin

section \<open>Numbers\<close>

text \<open>
  The TypeScript sources compute with \<^verbatim>\<open>number\<close>. The embedding reads every
  number as a real: \<^verbatim>\<open>Math.sqrt\<close> is \<^term>\<open>sqrt\<close>, \<^verbatim>\<open>Math.floor\<close> is
  \<^term>\<open>floor\<close>, and rounding, infinities and NaN are outside the model. An index into
  an array is an \<^typ>\<open>int\<close> (it may be negative or too large), the
  \<^verbatim>\<open>generation\<close> counter of a branch is an \<^typ>\<open>int\<close>.
  \<^verbatim>\<open>Math.random()\<close> is a stream of draws \<open>rnd :: nat \<Rightarrow> real\<close> read at a counter
  that every function consuming draws returns advanced, in the order in which the source
  evaluates its calls. \<^verbatim>\<open>Date.now()\<close> is a parameter \<open>now\<close>, read once per call.
\<close>

section \<open>The physics engine (class PhysicsSimulation)\<close>

text \<open>The fields \<^verbatim>\<open>x\<close> and \<^verbatim>\<open>y\<close> of a point are written \<open>p_x\<close> and \<open>p_y\<close>.\<close>

record PhysicsPoint =
  p_x :: real
  p_y :: real
  vx :: real
  vy :: real
  ax :: real
  ay :: real
  mass :: real
  fixed :: bool

record PhysicsSpring =
  point1 :: int
  point2 :: int
  restLength :: real
  stiffness :: real
  damping :: real

datatype ConstraintType = Distance | Angle

text \<open>The fields \<^verbatim>\<open>type\<close> and \<^verbatim>\<open>points\<close> of a constraint are \<open>ctype\<close> and \<open>cpoints\<close>.\<close>

record PhysicsConstraint =
  ctype :: ConstraintType
  cpoints :: "int list"
  targetValue :: real
  strength :: real

record PhysicsSimulation =
  points :: "PhysicsPoint list"
  springs :: "PhysicsSpring list"
  constraints :: "PhysicsConstraint list"
  wind_x :: real
  wind_y :: real
  gravity :: real
  canvasWidth :: real
  canvasHeight :: real

text \<open>
  Reading a property of \<^verbatim>\<open>undefined\<close> throws a TypeError: it is the one failure of
  the engine, and a call that throws returns \<open>Inl TypeError\<close>.
\<close>

datatype error = TypeError

definition new_simulation :: PhysicsSimulation where
  "new_simulation =
     \<lparr>points = [], springs = [], constraints = [], wind_x = 0, wind_y = 0, gravity = 0,
      canvasWidth = 800, canvasHeight = 600\<rparr>"

text \<open>\<^verbatim>\<open>this.points[i]\<close>: the point, or \<^verbatim>\<open>undefined\<close> (\<open>None\<close>) outside the array.\<close>

definition point_at :: "PhysicsPoint list \<Rightarrow> int \<Rightarrow> PhysicsPoint option" where
  "point_at pts i = (if 0 \<le> i \<and> i < int (length pts) then Some (pts ! nat i) else None)"

definition setCanvasSize :: "real \<Rightarrow> real \<Rightarrow> PhysicsSimulation \<Rightarrow> PhysicsSimulation" where
  "setCanvasSize width height s = s\<lparr>canvasWidth := width, canvasHeight := height\<rparr>"

definition setGravity :: "real \<Rightarrow> PhysicsSimulation \<Rightarrow> PhysicsSimulation" where
  "setGravity g s = s\<lparr>gravity := g\<rparr>"

definition setWind :: "real \<Rightarrow> real \<Rightarrow> PhysicsSimulation \<Rightarrow> PhysicsSimulation" where
  "setWind windX windY s = s\<lparr>wind_x := windX, wind_y := windY\<rparr>"

text \<open>\<open>addPoint\<close> returns the index of the new point and the engine.\<close>

definition addPoint ::
  "real \<Rightarrow> real \<Rightarrow> real \<Rightarrow> bool \<Rightarrow> PhysicsSimulation \<Rightarrow> int \<times> PhysicsSimulation" where
  "addPoint x y m f s =
     (int (length (points s)),
      s\<lparr>points := points s @
           [\<lparr>p_x = x, p_y = y, vx = 0, vy = 0, ax = 0, ay = 0, mass = m, fixed = f\<rparr>]\<rparr>)"

text \<open>
  \<open>addSpring\<close> returns at once when an index is \<open>\<ge> points.length\<close>. A negative index
  passes that test, reads \<^verbatim>\<open>undefined\<close> and throws at \<^verbatim>\<open>p2.x - p1.x\<close>.
\<close>

definition addSpring ::
  "int \<Rightarrow> int \<Rightarrow> real \<Rightarrow> real \<Rightarrow> PhysicsSimulation \<Rightarrow> error + PhysicsSimulation" where
  "addSpring i j stiff damp s =
     (if i \<ge> int (length (points s)) \<or> j \<ge> int (length (points s)) then Inr s
      else case (point_at (points s) i, point_at (points s) j) of
        (Some p1, Some p2) \<Rightarrow>
          Inr (s\<lparr>springs := springs s @
                 [\<lparr>point1 = i, point2 = j,
                   restLength = sqrt ((p_x p2 - p_x p1)\<^sup>2 + (p_y p2 - p_y p1)\<^sup>2),
                   stiffness = stiff, damping = damp\<rparr>]\<rparr>)
      | _ \<Rightarrow> Inl TypeError)"

definition addDistanceConstraint ::
  "int \<Rightarrow> int \<Rightarrow> real \<Rightarrow> real \<Rightarrow> PhysicsSimulation \<Rightarrow> PhysicsSimulation" where
  "addDistanceConstraint i j distance str s =
     s\<lparr>constraints := constraints s @
         [\<lparr>ctype = Distance, cpoints = [i, j], targetValue = distance, strength = str\<rparr>]\<rparr>"

definition removePoint :: "int \<Rightarrow> PhysicsSimulation \<Rightarrow> PhysicsSimulation" where
  "removePoint index s =
     (if index \<ge> 0 \<and> index < int (length (points s)) then
        (let springs1 = filter (\<lambda>spring. point1 spring \<noteq> index \<and> point2 spring \<noteq> index)
                          (springs s);
             constraints1 = filter (\<lambda>c. index \<notin> set (cpoints c)) (constraints s);
             points1 = take (nat index) (points s) @ drop (nat index + 1) (points s);
             springs2 = map (\<lambda>spring.
                               spring\<lparr>point1 := (if point1 spring > index then point1 spring - 1
                                                  else point1 spring),
                                      point2 := (if point2 spring > index then point2 spring - 1
                                                  else point2 spring)\<rparr>)
                          springs1;
             constraints2 = map (\<lambda>c. c\<lparr>cpoints := map (\<lambda>p. if p > index then p - 1 else p)
                                                          (cpoints c)\<rparr>)
                              constraints1
         in s\<lparr>points := points1, springs := springs2, constraints := constraints2\<rparr>)
      else s)"

definition applyForceToPoint ::
  "int \<Rightarrow> real \<Rightarrow> real \<Rightarrow> PhysicsSimulation \<Rightarrow> PhysicsSimulation" where
  "applyForceToPoint index fx fy s =
     (if index \<ge> 0 \<and> index < int (length (points s)) \<and> \<not> fixed (points s ! nat index) then
        (let p = points s ! nat index
         in s\<lparr>points := (points s)[nat index := p\<lparr>ax := ax p + fx / mass p,
                                                     ay := ay p + fy / mass p\<rparr>]\<rparr>)
      else s)"

subsection \<open>The passes of update\<close>

definition reset_acceleration :: "PhysicsPoint \<Rightarrow> PhysicsPoint" where
  "reset_acceleration point = point\<lparr>ax := 0, ay := 0\<rparr>"

definition apply_gravity :: "real \<Rightarrow> PhysicsPoint \<Rightarrow> PhysicsPoint" where
  "apply_gravity g point =
     (if \<not> fixed point then point\<lparr>ay := ay point + g * mass point\<rparr> else point)"

definition apply_wind :: "real \<Rightarrow> real \<Rightarrow> PhysicsPoint \<Rightarrow> PhysicsPoint" where
  "apply_wind wx wy point =
     (if \<not> fixed point then
        (let relativeVx = wx - vx point;
             relativeVy = wy - vy point;
             windForce = 0.1
         in point\<lparr>ax := ax point + relativeVx * windForce,
                  ay := ay point + relativeVy * windForce\<rparr>)
      else point)"

text \<open>
  One iteration of the loop over the springs. The two points are distinct objects
  whenever the branch \<open>distance > 0\<close> is taken, so writing them back at their indices is
  the in-place update of the source.
\<close>

definition apply_spring :: "PhysicsSpring \<Rightarrow> PhysicsPoint list \<Rightarrow> error + PhysicsPoint list" where
  "apply_spring spring pts =
     (case (point_at pts (point1 spring), point_at pts (point2 spring)) of
        (Some p1, Some p2) \<Rightarrow>
          (let dx = p_x p2 - p_x p1;
               dy = p_y p2 - p_y p1;
               distance = sqrt (dx * dx + dy * dy)
           in if distance > 0 then
                (let force = (distance - restLength spring) * stiffness spring;
                     fx = (dx / distance) * force;
                     fy = (dy / distance) * force;
                     dvx = vx p2 - vx p1;
                     dvy = vy p2 - vy p1;
                     dampingForce = 0.05;
                     q1 = (if \<not> fixed p1 then
                             p1\<lparr>ax := ax p1 + fx / mass p1 + dvx * dampingForce,
                                ay := ay p1 + fy / mass p1 + dvy * dampingForce\<rparr>
                           else p1);
                     q2 = (if \<not> fixed p2 then
                             p2\<lparr>ax := ax p2 - fx / mass p2 - dvx * dampingForce,
                                ay := ay p2 - fy / mass p2 - dvy * dampingForce\<rparr>
                           else p2)
                 in Inr (pts[nat (point1 spring) := q1, nat (point2 spring) := q2]))
              else Inr pts)
      | _ \<Rightarrow> Inl TypeError)"

fun apply_springs :: "PhysicsSpring list \<Rightarrow> PhysicsPoint list \<Rightarrow> error + PhysicsPoint list" where
  "apply_springs [] pts = Inr pts"
| "apply_springs (spring # rest) pts =
     (case apply_spring spring pts of
        Inl e \<Rightarrow> Inl e
      | Inr pts' \<Rightarrow> apply_springs rest pts')"

text \<open>The body of the collision loops for the pair \<open>i < j\<close>, both inside the array.\<close>

definition collide_pair :: "nat \<Rightarrow> nat \<Rightarrow> PhysicsPoint list \<Rightarrow> PhysicsPoint list" where
  "collide_pair i j pts =
     (let p1 = pts ! i;
          p2 = pts ! j;
          dx = p_x p2 - p_x p1;
          dy = p_y p2 - p_y p1;
          distance = sqrt (dx * dx + dy * dy);
          minDistance = 10
      in if distance < minDistance \<and> distance > 0 then
           (let overlap = minDistance - distance;
                separation = overlap / 2;
                fx = (dx / distance) * separation;
                fy = (dy / distance) * separation;
                q1 = (if \<not> fixed p1 then p1\<lparr>p_x := p_x p1 - fx, p_y := p_y p1 - fy\<rparr> else p1);
                q2 = (if \<not> fixed p2 then p2\<lparr>p_x := p_x p2 + fx, p_y := p_y p2 + fy\<rparr> else p2)
            in pts[i := q1, j := q2])
         else pts)"

definition collisions :: "PhysicsPoint list \<Rightarrow> PhysicsPoint list" where
  "collisions pts =
     fold (\<lambda>i. fold (\<lambda>j. collide_pair i j) [i + 1 ..< length pts]) [0 ..< length pts] pts"

definition apply_constraint ::
  "PhysicsConstraint \<Rightarrow> PhysicsPoint list \<Rightarrow> error + PhysicsPoint list" where
  "apply_constraint c pts =
     (if ctype c = Distance \<and> length (cpoints c) = 2 then
        (case (point_at pts (cpoints c ! 0), point_at pts (cpoints c ! 1)) of
           (Some p1, Some p2) \<Rightarrow>
             (let dx = p_x p2 - p_x p1;
                  dy = p_y p2 - p_y p1;
                  distance = sqrt (dx * dx + dy * dy)
              in if distance > 0 then
                   (let difference = targetValue c - distance;
                        correction = difference * strength c;
                        correctionX = (dx / distance) * correction * 0.5;
                        correctionY = (dy / distance) * correction * 0.5;
                        q1 = (if \<not> fixed p1 then
                                p1\<lparr>p_x := p_x p1 - correctionX, p_y := p_y p1 - correctionY\<rparr>
                              else p1);
                        q2 = (if \<not> fixed p2 then
                                p2\<lparr>p_x := p_x p2 + correctionX, p_y := p_y p2 + correctionY\<rparr>
                              else p2)
                    in Inr (pts[nat (cpoints c ! 0) := q1, nat (cpoints c ! 1) := q2]))
                 else Inr pts)
         | _ \<Rightarrow> Inl TypeError)
      else Inr pts)"

fun apply_constraints ::
  "PhysicsConstraint list \<Rightarrow> PhysicsPoint list \<Rightarrow> error + PhysicsPoint list" where
  "apply_constraints [] pts = Inr pts"
| "apply_constraints (c # rest) pts =
     (case apply_constraint c pts of
        Inl e \<Rightarrow> Inl e
      | Inr pts' \<Rightarrow> apply_constraints rest pts')"

text \<open>
  The body of the integration loop. The four boundary tests run one after the other on
  the coordinate as the earlier test left it.
\<close>

definition integrate_point :: "real \<Rightarrow> real \<Rightarrow> real \<Rightarrow> PhysicsPoint \<Rightarrow> PhysicsPoint" where
  "integrate_point width height deltaTime point =
     (if \<not> fixed point then
        (let airResistance = 0.999;
             margin = 5;
             a = point\<lparr>vx := (vx point + ax point * deltaTime) * airResistance,
                       vy := (vy point + ay point * deltaTime) * airResistance\<rparr>;
             b = a\<lparr>p_x := p_x a + vx a * deltaTime, p_y := p_y a + vy a * deltaTime\<rparr>;
             c = (if p_x b < margin then b\<lparr>p_x := margin, vx := vx b * (- 0.3)\<rparr> else b);
             d = (if p_x c > width - margin then c\<lparr>p_x := width - margin, vx := vx c * (- 0.3)\<rparr>
                  else c);
             e = (if p_y d < margin then d\<lparr>p_y := margin, vy := vy d * (- 0.3)\<rparr> else d)
         in if p_y e > height - margin then e\<lparr>p_y := height - margin, vy := vy e * (- 0.3)\<rparr>
            else e)
      else point)"

text \<open>
  The passes of \<open>update\<close> before the integration loop: reset, gravity, wind, springs,
  collisions, constraints.
\<close>

definition pre_integrate :: "PhysicsSimulation \<Rightarrow> error + PhysicsPoint list" where
  "pre_integrate s =
     (let pts0 = map reset_acceleration (points s);
          pts1 = (if gravity s > 0 then map (apply_gravity (gravity s)) pts0 else pts0);
          pts2 = (if wind_x s \<noteq> 0 \<or> wind_y s \<noteq> 0 then map (apply_wind (wind_x s) (wind_y s)) pts1
                  else pts1)
      in case apply_springs (springs s) pts2 of
           Inl e \<Rightarrow> Inl e
         | Inr pts3 \<Rightarrow> apply_constraints (constraints s) (collisions pts3))"

definition update :: "real \<Rightarrow> PhysicsSimulation \<Rightarrow> error + PhysicsSimulation" where
  "update deltaTime s =
     (case pre_integrate s of
        Inl e \<Rightarrow> Inl e
      | Inr pts \<Rightarrow>
          Inr (s\<lparr>points := map (integrate_point (canvasWidth s) (canvasHeight s) deltaTime) pts\<rparr>))"

section \<open>The growth engine (generateBranches, animateBranches)\<close>

text \<open>The fields \<^verbatim>\<open>x\<close> and \<^verbatim>\<open>y\<close> of a stroke point are \<open>pt_x\<close> and \<open>pt_y\<close>.\<close>

record Point =
  pt_x :: real
  pt_y :: real

text \<open>The field \<^verbatim>\<open>length\<close> of a branch is \<open>length_b\<close>.\<close>

record Branch =
  startX :: real
  startY :: real
  endX :: real
  endY :: real
  angle :: real
  length_b :: real
  generation :: int
  progress :: real
  maxProgress :: real
  color :: string
  opacity :: real
  lastGrowth :: real

datatype DrawingMode = Neural | Electric | Organic

text \<open>The fields of \<^verbatim>\<open>GrowthSettings\<close> that the growth engine reads.\<close>

record GrowthSettings =
  branchComplexity :: real
  selectedColor :: string
  drawingMode :: DrawingMode
  particleEffects :: bool

text \<open>A call of the completion callback \<^verbatim>\<open>onParticleGeneration(x, y, color)\<close>.\<close>

type_synonym callback_call = "real \<times> real \<times> string"

definition maxBranches :: nat where
  "maxBranches = 500"

definition colors :: "string list" where
  "colors = [''#00E0FF'', ''#FF2CFB'', ''#A020F0'', ''#00FFAA'', ''#FF6B35'']"

text \<open>\<^verbatim>\<open>Math.atan2(y, x)\<close>.\<close>

definition atan2 :: "real \<Rightarrow> real \<Rightarrow> real" where
  "atan2 y x =
     (if x > 0 then arctan (y / x)
      else if x < 0 then (if y \<ge> 0 then arctan (y / x) + pi else arctan (y / x) - pi)
      else if y > 0 then pi / 2
      else if y < 0 then - (pi / 2)
      else 0)"

text \<open>The remainder \<^verbatim>\<open>a % b\<close> of JavaScript: the quotient is truncated towards zero.\<close>

definition js_rem :: "real \<Rightarrow> real \<Rightarrow> real" where
  "js_rem a b = a - b * of_int (if a / b \<ge> 0 then \<lfloor>a / b\<rfloor> else \<lceil>a / b\<rceil>)"

definition getRandomColor ::
  "int \<Rightarrow> GrowthSettings \<Rightarrow> (nat \<Rightarrow> real) \<Rightarrow> nat \<Rightarrow> string \<times> nat" where
  "getRandomColor gen settings rnd k =
     (if drawingMode settings = Electric then
        (let electricColors = [''#00E0FF'', ''#4F46E5'', ''#8B5CF6'', ''#06B6D4'']
         in (electricColors ! nat \<lfloor>rnd k * real (length electricColors)\<rfloor>, k + 1))
      else if drawingMode settings = Organic then
        (let organicColors = [''#00FFAA'', ''#10B981'', ''#34D399'', ''#6EE7B7'']
         in (organicColors ! nat \<lfloor>rnd k * real (length organicColors)\<rfloor>, k + 1))
      else if gen = 0 then (selectedColor settings, k)
      else if gen = 1 then (''#FF2CFB'', k)
      else (colors ! nat \<lfloor>rnd k * real (length colors)\<rfloor>, k + 1))"

subsection \<open>generateBranches\<close>

text \<open>The body of the inner loop: one seed branch at a sampled stroke point.\<close>

definition seed_branch ::
  "Point \<Rightarrow> real \<Rightarrow> real \<Rightarrow> real \<Rightarrow> GrowthSettings \<Rightarrow> real \<Rightarrow> (nat \<Rightarrow> real) \<Rightarrow> nat
   \<Rightarrow> Branch \<times> nat" where
  "seed_branch point strokeAngle branchLengthMultiplier angleVariation settings now rnd k =
     (let angleOffset = (rnd k - 0.5) * pi * angleVariation;
          ang = strokeAngle + angleOffset;
          len = (30 + rnd (k + 1) * 50) * branchLengthMultiplier;
          maxP = 60 + rnd (k + 2) * 40;
          (col, k3) = getRandomColor 0 settings rnd (k + 3)
      in (\<lparr>startX = pt_x point, startY = pt_y point,
           endX = pt_x point + cos ang * len, endY = pt_y point + sin ang * len,
           angle = ang, length_b = len, generation = 0, progress = 0, maxProgress = maxP,
           color = col, opacity = 0.8 + rnd k3 * 0.2,
           lastGrowth = now + rnd (k3 + 1) * 2000\<rparr>,
          k3 + 2))"

fun seed_branches ::
  "nat \<Rightarrow> Point \<Rightarrow> real \<Rightarrow> real \<Rightarrow> real \<Rightarrow> GrowthSettings \<Rightarrow> real \<Rightarrow> (nat \<Rightarrow> real)
   \<Rightarrow> Branch list \<times> nat \<Rightarrow> Branch list \<times> nat" where
  "seed_branches 0 point strokeAngle blm av settings now rnd st = st"
| "seed_branches (Suc n) point strokeAngle blm av settings now rnd (branches, k) =
     (let (b, k') = seed_branch point strokeAngle blm av settings now rnd k
      in seed_branches n point strokeAngle blm av settings now rnd (branches @ [b], k'))"

text \<open>
  The body of the outer loop, for the loop variable \<open>i\<close>. The sampled index lies inside
  the stroke for \<open>i < numBranches\<close> (lemma \<open>pointIndex_in_range\<close>).
\<close>

definition pointIndex :: "Point list \<Rightarrow> int \<Rightarrow> nat \<Rightarrow> int" where
  "pointIndex strokePoints numBranches i =
     \<lfloor>(real (length strokePoints) - 1) * (real i / real_of_int numBranches)\<rfloor>"

definition seed_at ::
  "Point list \<Rightarrow> GrowthSettings \<Rightarrow> real \<Rightarrow> (nat \<Rightarrow> real) \<Rightarrow> int \<Rightarrow> real \<Rightarrow> real \<Rightarrow> nat
   \<Rightarrow> Branch list \<times> nat \<Rightarrow> Branch list \<times> nat" where
  "seed_at strokePoints settings now rnd numBranches blm av i st =
     (case st of (branches, k) \<Rightarrow>
        (let idx = pointIndex strokePoints numBranches i;
             point = strokePoints ! nat idx;
             strokeAngle =
               (if idx < int (length strokePoints) - 1 then
                  (let nextPoint = strokePoints ! nat (idx + 1)
                   in atan2 (pt_y nextPoint - pt_y point) (pt_x nextPoint - pt_x point))
                else 0);
             numInitialBranches =
               (if drawingMode settings = Electric then \<lfloor>rnd k * 3\<rfloor> + 1 else \<lfloor>rnd k * 2\<rfloor> + 1)
         in seed_branches (nat numInitialBranches) point strokeAngle blm av settings now rnd
              (branches, k + 1)))"

definition numBranches_of :: "Point list \<Rightarrow> GrowthSettings \<Rightarrow> int" where
  "numBranches_of strokePoints settings =
     (let complexity = min (branchComplexity settings / 100) 0.25
      in if drawingMode settings = Electric then
           max 1 \<lfloor>real (length strokePoints) * complexity * 0.08\<rfloor>
         else if drawingMode settings = Organic then
           max 1 \<lfloor>real (length strokePoints) * complexity * 0.03\<rfloor>
         else max 1 \<lfloor>real (length strokePoints) * complexity * 0.05\<rfloor>)"

definition generateBranches ::
  "Point list \<Rightarrow> GrowthSettings \<Rightarrow> real \<Rightarrow> (nat \<Rightarrow> real) \<Rightarrow> nat \<Rightarrow> Branch list \<times> nat" where
  "generateBranches strokePoints settings now rnd k =
     (if length strokePoints < 2 then ([], k)
      else
        (let numBranches = numBranches_of strokePoints settings;
             branchLengthMultiplier =
               (if drawingMode settings = Electric then 1.5
                else if drawingMode settings = Organic then 0.8 else 1.0);
             angleVariation =
               (if drawingMode settings = Electric then 1.2
                else if drawingMode settings = Organic then 0.6 else 0.8)
         in fold (seed_at strokePoints settings now rnd numBranches branchLengthMultiplier
                    angleVariation)
              [0 ..< nat numBranches] ([], k)))"

subsection \<open>animateBranches\<close>

text \<open>
  The first part of the \<^verbatim>\<open>forEach\<close> body: the growth tick of one branch and the
  calls of the completion callback it makes. \<open>hasCallback\<close> says whether
  \<^verbatim>\<open>onParticleGeneration\<close> was passed.
\<close>

definition grow ::
  "GrowthSettings \<Rightarrow> bool \<Rightarrow> real \<Rightarrow> real \<Rightarrow> Branch \<Rightarrow> Branch \<times> callback_call list" where
  "grow settings hasCallback now speedMultiplier branch =
     (let prevProgress = progress branch
      in if progress branch < maxProgress branch \<and> now - lastGrowth branch > 16 then
           (let b = branch\<lparr>progress := min (maxProgress branch) (progress branch + speedMultiplier),
                           lastGrowth := now\<rparr>
            in (b,
                if particleEffects settings \<and> hasCallback \<and> progress b \<ge> maxProgress b
                   \<and> prevProgress < maxProgress b
                then [(startX b + cos (angle b) * length_b b,
                       startY b + sin (angle b) * length_b b, color b)]
                else []))
         else (branch, []))"

text \<open>
  The branch object that the spawn loop pushes: the child of \<open>branch\<close>, from the angle
  and the length the loop has drawn and the draws from the counter \<open>k\<close> on.
\<close>

definition new_child ::
  "GrowthSettings \<Rightarrow> real \<Rightarrow> (nat \<Rightarrow> real) \<Rightarrow> Branch \<Rightarrow> real \<Rightarrow> real \<Rightarrow> nat \<Rightarrow> Branch \<times> nat" where
  "new_child settings now rnd branch newAngle newLength k =
     (let sX = startX branch + cos (angle branch) * length_b branch;
          sY = startY branch + sin (angle branch) * length_b branch;
          maxP = 40 + rnd k * 30;
          (col, k1) = getRandomColor (generation branch + 1) settings rnd (k + 1)
      in (\<lparr>startX = sX, startY = sY,
           endX = sX + cos newAngle * newLength, endY = sY + sin newAngle * newLength,
           angle = newAngle, length_b = newLength,
           generation = generation branch + 1, progress = 0, maxProgress = maxP,
           color = col,
           opacity = max 0.3 (opacity branch - real_of_int (generation branch) * 0.15),
           lastGrowth = now + rnd k1 * 1000\<rparr>,
          k1 + 1))"

text \<open>One iteration of the loop that creates the children of \<open>branch\<close>.\<close>

definition spawn_child ::
  "GrowthSettings \<Rightarrow> real \<Rightarrow> (nat \<Rightarrow> real) \<Rightarrow> Branch \<Rightarrow> Branch list \<times> nat \<Rightarrow> Branch list \<times> nat" where
  "spawn_child settings now rnd branch st =
     (case st of (newBranches, k) \<Rightarrow>
        (let angleDeviation =
               (if drawingMode settings = Organic then (rnd k - 0.5) * pi * 0.4
                else (rnd k - 0.5) * pi * 0.6);
             newAngle = angle branch + angleDeviation;
             newLength = length_b branch * (0.6 + rnd (k + 1) * 0.3)
         in if length newBranches < maxBranches then
              (let (child, k') = new_child settings now rnd branch newAngle newLength (k + 2)
               in (newBranches @ [child], k'))
            else (newBranches, k + 2)))"

fun spawn_children ::
  "nat \<Rightarrow> GrowthSettings \<Rightarrow> real \<Rightarrow> (nat \<Rightarrow> real) \<Rightarrow> Branch \<Rightarrow> Branch list \<times> nat
   \<Rightarrow> Branch list \<times> nat" where
  "spawn_children 0 settings now rnd branch st = st"
| "spawn_children (Suc n) settings now rnd branch st =
     spawn_children n settings now rnd branch (spawn_child settings now rnd branch st)"

text \<open>
  The \<^verbatim>\<open>forEach\<close> body. The state is \<^verbatim>\<open>newBranches\<close>, the calls of the callback so
  far and the counter of the random draws. \<^verbatim>\<open>Math.random()\<close> in the spawn condition is
  evaluated only when the two tests before it hold. The branch pushed to
  \<^verbatim>\<open>newBranches\<close> is the object whose \<^verbatim>\<open>lastGrowth\<close> is assigned after the
  children are created: the update at its index.
\<close>

definition animate_branch ::
  "GrowthSettings \<Rightarrow> bool \<Rightarrow> real \<Rightarrow> real \<Rightarrow> real \<Rightarrow> int \<Rightarrow> real \<Rightarrow> (nat \<Rightarrow> real) \<Rightarrow> Branch
   \<Rightarrow> Branch list \<times> callback_call list \<times> nat \<Rightarrow> Branch list \<times> callback_call list \<times> nat" where
  "animate_branch settings hasCallback now speedMultiplier branchProbability maxGenerations
     growthDelay rnd branch st =
     (case st of (newBranches, calls, k) \<Rightarrow>
        (let (b, fired) = grow settings hasCallback now speedMultiplier branch;
             pushed = newBranches @ [b]
         in if progress b \<ge> maxProgress b \<and> generation b < maxGenerations then
              (if rnd k < branchProbability * speedMultiplier
                  \<and> now - lastGrowth b > growthDelay
                  \<and> length pushed < maxBranches
               then
                 (let (numNewBranches, k1) =
                        (if drawingMode settings = Electric then (\<lfloor>rnd (k + 1) * 2\<rfloor> + 1, k + 2)
                         else (1, k + 1));
                      (withChildren, k2) =
                        spawn_children (nat numNewBranches) settings now rnd b (pushed, k1)
                  in (withChildren[length newBranches := b\<lparr>lastGrowth := now\<rparr>],
                      calls @ fired, k2))
               else (pushed, calls @ fired, k + 1))
            else (pushed, calls @ fired, k)))"

text \<open>The final \<^verbatim>\<open>map\<close>: the opacity pulse of a fully grown branch.\<close>

definition pulse :: "GrowthSettings \<Rightarrow> real \<Rightarrow> Branch \<Rightarrow> Branch" where
  "pulse settings now branch =
     (if progress branch \<ge> maxProgress branch \<and> js_rem now 100 < 16 then
        (let pulseIntensity = (if drawingMode settings = Electric then 0.1 else 0.05);
             pulseSpeed = (if drawingMode settings = Electric then 0.002 else 0.001);
             pulsePhase = js_rem (now * pulseSpeed + startX branch * 0.01) (pi * 2)
         in branch\<lparr>opacity := max 0.3 (opacity branch + sin pulsePhase * pulseIntensity)\<rparr>)
      else branch)"

definition branchProbability_of :: "DrawingMode \<Rightarrow> real" where
  "branchProbability_of m = (if m = Electric then 0.015 else if m = Organic then 0.008 else 0.01)"

definition maxGenerations_of :: "DrawingMode \<Rightarrow> int" where
  "maxGenerations_of m = (if m = Electric then 4 else if m = Organic then 5 else 3)"

definition growthDelay_of :: "DrawingMode \<Rightarrow> real" where
  "growthDelay_of m = (if m = Electric then 800 else if m = Organic then 1500 else 1000)"

text \<open>
  The \<^verbatim>\<open>forEach\<close> loop over \<^verbatim>\<open>activeBranches\<close>, from a given state of
  \<^verbatim>\<open>newBranches\<close>, the calls and the draws.
\<close>

definition animate_loop ::
  "GrowthSettings \<Rightarrow> bool \<Rightarrow> real \<Rightarrow> real \<Rightarrow> (nat \<Rightarrow> real) \<Rightarrow> Branch list
   \<Rightarrow> Branch list \<times> callback_call list \<times> nat \<Rightarrow> Branch list \<times> callback_call list \<times> nat" where
  "animate_loop settings hasCallback now speedMultiplier rnd activeBranches st =
     fold (animate_branch settings hasCallback now speedMultiplier
             (branchProbability_of (drawingMode settings))
             (maxGenerations_of (drawingMode settings))
             (growthDelay_of (drawingMode settings)) rnd)
       activeBranches st"

text \<open>
  \<open>animateBranches\<close> returns the new branch list, the calls of the callback in the order
  they were made, and the counter of the random draws.
\<close>

definition animateBranches ::
  "Branch list \<Rightarrow> real \<Rightarrow> GrowthSettings \<Rightarrow> bool \<Rightarrow> real \<Rightarrow> (nat \<Rightarrow> real) \<Rightarrow> nat
   \<Rightarrow> Branch list \<times> callback_call list \<times> nat" where
  "animateBranches branches growthSpeed settings hasCallback now rnd k =
     (let speedMultiplier = growthSpeed / 50;
          activeBranches = take maxBranches branches;
          (newBranches, calls, k') =
            animate_loop settings hasCallback now speedMultiplier rnd activeBranches ([], [], k)
      in (map (pulse settings now) newBranches, calls, k'))"

section \<open>Notions used in the statements\<close>

subsection \<open>Physics engine\<close>

text \<open>
  Two engines that agree on everything but the \<open>damping\<close> fields of their springs.
\<close>

definition differ_in_damping_only :: "PhysicsSimulation \<Rightarrow> PhysicsSimulation \<Rightarrow> bool" where
  "differ_in_damping_only s t \<longleftrightarrow>
     points s = points t \<and> constraints s = constraints t \<and> wind_x s = wind_x t \<and>
     wind_y s = wind_y t \<and> gravity s = gravity t \<and> canvasWidth s = canvasWidth t \<and>
     canvasHeight s = canvasHeight t \<and>
     map (\<lambda>sp. sp\<lparr>damping := 0\<rparr>) (springs s) = map (\<lambda>sp. sp\<lparr>damping := 0\<rparr>) (springs t)"

text \<open>
  A fixed point, a free point below it that moves, and a spring between them whose
  \<open>damping\<close> field is \<open>d\<close>.
\<close>

definition two_point_engine :: "real \<Rightarrow> PhysicsSimulation" where
  "two_point_engine d =
     new_simulation\<lparr>points :=
        [\<lparr>p_x = 100, p_y = 100, vx = 0, vy = 0, ax = 0, ay = 0, mass = 1, fixed = True\<rparr>,
         \<lparr>p_x = 100, p_y = 120, vx = 0, vy = 1, ax = 0, ay = 0, mass = 1, fixed = False\<rparr>],
       springs := [\<lparr>point1 = 0, point2 = 1, restLength = 10, stiffness = 0.2, damping = d\<rparr>]\<rparr>"

text \<open>
  One point, and a distance constraint between it and the index 5, which names no point:
  \<^verbatim>\<open>addPoint(0, 0, 1, false); addDistanceConstraint(0, 5, 10, 0.5)\<close>.
\<close>

definition dangling_engine :: PhysicsSimulation where
  "dangling_engine = addDistanceConstraint 0 5 10 0.5 (snd (addPoint 0 0 1 False new_simulation))"

text \<open>
  What the integration loop computes for a free point \<open>q\<close> before the boundary tests:
  the velocity after acceleration and air resistance, and the coordinate that this
  velocity carries the point to.
\<close>

definition moved_vx :: "real \<Rightarrow> PhysicsPoint \<Rightarrow> real" where
  "moved_vx deltaTime q = (vx q + ax q * deltaTime) * 0.999"

definition moved_vy :: "real \<Rightarrow> PhysicsPoint \<Rightarrow> real" where
  "moved_vy deltaTime q = (vy q + ay q * deltaTime) * 0.999"

definition moved_x :: "real \<Rightarrow> PhysicsPoint \<Rightarrow> real" where
  "moved_x deltaTime q = p_x q + moved_vx deltaTime q * deltaTime"

definition moved_y :: "real \<Rightarrow> PhysicsPoint \<Rightarrow> real" where
  "moved_y deltaTime q = p_y q + moved_vy deltaTime q * deltaTime"

text \<open>
  The inelastic bounce on one axis whose upper limit is \<open>limit\<close> (the canvas width or
  height): a coordinate \<open>c\<close> carried below the margin 5 or above \<open>limit - 5\<close> is put on
  that bound and the velocity component \<open>v\<close> is multiplied by \<open>-0.3\<close>; otherwise both
  are kept. The result is the pair of the coordinate and the velocity component.
\<close>

definition bounced :: "real \<Rightarrow> real \<Rightarrow> real \<Rightarrow> real \<times> real" where
  "bounced limit c v =
     (if c < 5 then (5, v * (- 0.3))
      else if c > limit - 5 then (limit - 5, v * (- 0.3))
      else (c, v))"

text \<open>A free point one unit from the left margin that moves left at speed 10.\<close>

definition wall_engine :: PhysicsSimulation where
  "wall_engine = new_simulation\<lparr>points :=
     [\<lparr>p_x = 6, p_y = 300, vx = - 10, vy = 0, ax = 0, ay = 0, mass = 1, fixed = False\<rparr>]\<rparr>"

definition wall_engine_after :: PhysicsSimulation where
  "wall_engine_after = new_simulation\<lparr>points :=
     [\<lparr>p_x = 5, p_y = 300, vx = 2.997, vy = 0, ax = 0, ay = 0, mass = 1, fixed = False\<rparr>]\<rparr>"

text \<open>One fixed point at the origin: \<^verbatim>\<open>addPoint(0, 0, 1, true)\<close>.\<close>

definition anchored_engine :: PhysicsSimulation where
  "anchored_engine = snd (addPoint 0 0 1 True new_simulation)"

text \<open>
  The distance of two points, as the spring, collision and constraint loops compute it.
\<close>

definition separation :: "PhysicsPoint \<Rightarrow> PhysicsPoint \<Rightarrow> real" where
  "separation p1 p2 =
     sqrt ((p_x p2 - p_x p1) * (p_x p2 - p_x p1) + (p_y p2 - p_y p1) * (p_y p2 - p_y p1))"

text \<open>
  The component along the spring from \<open>p1\<close> to \<open>p2\<close> of the velocity of \<open>p2\<close> relative to
  \<open>p1\<close>: the quantity the claim C3 names. The source does not compute it.
\<close>

definition velocity_along_spring :: "PhysicsPoint \<Rightarrow> PhysicsPoint \<Rightarrow> real" where
  "velocity_along_spring p1 p2 =
     ((vx p2 - vx p1) * (p_x p2 - p_x p1) + (vy p2 - vy p1) * (p_y p2 - p_y p1))
       / separation p1 p2"

text \<open>
  The positions the collision loop gives to the first and to the second point of a pair
  at a distance below 10: a free point is moved away from the other one along the
  separation vector by half the overlap, a fixed point is kept.
\<close>

definition push_first :: "PhysicsPoint \<Rightarrow> PhysicsPoint \<Rightarrow> PhysicsPoint" where
  "push_first p1 p2 =
     (if fixed p1 then p1
      else p1\<lparr>p_x := p_x p1 - (p_x p2 - p_x p1) / separation p1 p2
                                 * ((10 - separation p1 p2) / 2),
              p_y := p_y p1 - (p_y p2 - p_y p1) / separation p1 p2
                                 * ((10 - separation p1 p2) / 2)\<rparr>)"

definition push_second :: "PhysicsPoint \<Rightarrow> PhysicsPoint \<Rightarrow> PhysicsPoint" where
  "push_second p1 p2 =
     (if fixed p2 then p2
      else p2\<lparr>p_x := p_x p2 + (p_x p2 - p_x p1) / separation p1 p2
                                 * ((10 - separation p1 p2) / 2),
              p_y := p_y p2 + (p_y p2 - p_y p1) / separation p1 p2
                                 * ((10 - separation p1 p2) / 2)\<rparr>)"

text \<open>A free point of mass 1 at rest: \<^verbatim>\<open>addPoint(x, y)\<close>.\<close>

definition free_point :: "real \<Rightarrow> real \<Rightarrow> PhysicsPoint" where
  "free_point x y = \<lparr>p_x = x, p_y = y, vx = 0, vy = 0, ax = 0, ay = 0, mass = 1, fixed = False\<rparr>"

text \<open>Two free points at distance 5.\<close>

definition close_pair :: "PhysicsPoint list" where
  "close_pair = [free_point 0 0, free_point 3 4]"

text \<open>Three free points on a line, at 0, 8 and 11.\<close>

definition cluster :: "PhysicsPoint list" where
  "cluster = [free_point 0 0, free_point 8 0, free_point 11 0]"

text \<open>
  Two free points at distance 10, the second one moving at right angles to the line
  between them, and a spring between them at its rest length.
\<close>

definition sideways_pair :: "PhysicsPoint list" where
  "sideways_pair = [free_point 0 0, (free_point 10 0)\<lparr>vy := 1\<rparr>]"

definition rest_spring :: PhysicsSpring where
  "rest_spring = \<lparr>point1 = 0, point2 = 1, restLength = 10, stiffness = 0.1, damping = 0.99\<rparr>"

text \<open>
  An engine in which no force acts on any point: no gravity, no wind, no springs, no
  constraints.
\<close>

definition forceless :: "PhysicsSimulation \<Rightarrow> bool" where
  "forceless s \<longleftrightarrow>
     gravity s = 0 \<and> wind_x s = 0 \<and> wind_y s = 0 \<and> springs s = [] \<and> constraints s = []"

text \<open>
  An engine in which, in addition, the collision pass moves no point: no two points are
  at a positive distance below 10.
\<close>

definition calm :: "PhysicsSimulation \<Rightarrow> bool" where
  "calm s \<longleftrightarrow>
     gravity s = 0 \<and> wind_x s = 0 \<and> wind_y s = 0 \<and> springs s = [] \<and> constraints s = [] \<and>
     (\<forall>i < length (points s). \<forall>j < length (points s). i < j \<longrightarrow>
        separation (points s ! i) (points s ! j) = 0
        \<or> 10 \<le> separation (points s ! i) (points s ! j))"

text \<open>The velocity and the acceleration of a point.\<close>

definition motion :: "PhysicsPoint \<Rightarrow> real \<times> real \<times> real \<times> real" where
  "motion p = (vx p, vy p, ax p, ay p)"

text \<open>
  Two free points at distance 2 and a third one at distances 12 and 14 from them.
\<close>

definition drifting :: "PhysicsPoint list" where
  "drifting = [free_point 12 50, free_point 14 50, free_point 0 50]"

text \<open>\<open>n\<close> calls of \<open>update\<close> in a row.\<close>

fun updates :: "nat \<Rightarrow> real \<Rightarrow> PhysicsSimulation \<Rightarrow> error + PhysicsSimulation" where
  "updates 0 deltaTime s = Inr s"
| "updates (Suc n) deltaTime s =
     (case update deltaTime s of
        Inl e \<Rightarrow> Inl e
      | Inr s' \<Rightarrow> updates n deltaTime s')"

definition wall_engine_later :: PhysicsSimulation where
  "wall_engine_later = new_simulation\<lparr>points :=
     [\<lparr>p_x = 7.994003, p_y = 300, vx = 2.994003, vy = 0, ax = 0, ay = 0, mass = 1,
       fixed = False\<rparr>]\<rparr>"

text \<open>
  The engine \<open>two_point_engine d\<close> after one step of length 1: the fixed point has not
  moved; the free point has been pulled towards it by the spring, whose force is
  \<open>(20 - 10) * 0.2 = 2\<close>, and slowed by the damping term \<open>0.05 * 1\<close>.
\<close>

definition two_point_engine_after :: "real \<Rightarrow> PhysicsSimulation" where
  "two_point_engine_after d =
     (two_point_engine d)\<lparr>points :=
        [\<lparr>p_x = 100, p_y = 100, vx = 0, vy = 0, ax = 0, ay = 0, mass = 1, fixed = True\<rparr>,
         \<lparr>p_x = 100, p_y = 118.95105, vx = 0, vy = - 1.04895, ax = 0, ay = - 2.05, mass = 1,
           fixed = False\<rparr>]\<rparr>"

text \<open>
  An engine of the two points \<open>sideways_pair\<close> and the spring \<open>rest_spring\<close> between them.
\<close>

definition sideways_engine :: PhysicsSimulation where
  "sideways_engine = new_simulation\<lparr>points := sideways_pair, springs := [rest_spring]\<rparr>"

text \<open>
  What the spring loop reads of a point: its position, velocity, mass and flag. No pass
  before the collisions changes them.
\<close>

definition frame :: "PhysicsPoint \<Rightarrow> real \<times> real \<times> real \<times> real \<times> real \<times> bool" where
  "frame p = (p_x p, p_y p, vx p, vy p, mass p, fixed p)"

text \<open>
  The acceleration that one spring adds to the point of index \<open>k\<close>, on the points \<open>pts\<close>,
  when the damping coefficient is \<open>c\<close>: if both indices of the spring name points, at a
  distance \<open>d > 0\<close>, the first endpoint, unless it is fixed, is accelerated by the force
  \<open>(d - restLength) * stiffness\<close> along the normalized separation vector divided by its
  mass, plus \<open>c\<close> times the velocity of the second endpoint relative to the first (the
  whole vector, axis by axis, not divided by the mass); the second endpoint, unless it is
  fixed, by the opposite of both terms, with its own mass. A fixed endpoint, a point that
  is no endpoint of the spring and a spring of length 0 give \<open>(0, 0)\<close>. The \<open>damping\<close>
  field of the spring is not read.
\<close>

definition spring_pull ::
  "real \<Rightarrow> PhysicsSpring \<Rightarrow> PhysicsPoint list \<Rightarrow> nat \<Rightarrow> real \<times> real" where
  "spring_pull c sp pts k =
     (case (point_at pts (point1 sp), point_at pts (point2 sp)) of
        (Some p1, Some p2) \<Rightarrow>
          (let d = separation p1 p2;
               fx = (p_x p2 - p_x p1) / d * ((d - restLength sp) * stiffness sp);
               fy = (p_y p2 - p_y p1) / d * ((d - restLength sp) * stiffness sp)
           in if d > 0 \<and> k = nat (point1 sp) \<and> \<not> fixed p1 then
                (fx / mass p1 + (vx p2 - vx p1) * c, fy / mass p1 + (vy p2 - vy p1) * c)
              else if d > 0 \<and> k = nat (point2 sp) \<and> \<not> fixed p2 then
                (- (fx / mass p2) - (vx p2 - vx p1) * c,
                 - (fy / mass p2) - (vy p2 - vy p1) * c)
              else (0, 0))
      | _ \<Rightarrow> (0, 0))"

text \<open>
  The acceleration of a point after the reset, gravity and wind passes: zero for a fixed
  point; for a free point the wind term \<open>(wind - velocity) * 0.1\<close> on each axis when a wind
  is set, and \<open>gravity * mass\<close> on the vertical axis when the gravity is positive.
\<close>

definition base_acceleration :: "PhysicsSimulation \<Rightarrow> PhysicsPoint \<Rightarrow> real \<times> real" where
  "base_acceleration s p =
     (if fixed p then (0, 0)
      else ((if wind_x s \<noteq> 0 \<or> wind_y s \<noteq> 0 then (wind_x s - vx p) * 0.1 else 0),
            (if gravity s > 0 then gravity s * mass p else 0)
            + (if wind_x s \<noteq> 0 \<or> wind_y s \<noteq> 0 then (wind_y s - vy p) * 0.1 else 0)))"

text \<open>
  The pairs of indices \<open>i < j < n\<close> in the order of the two nested collision loops, and
  that order: by the first index, then by the second.
\<close>

definition index_pairs :: "nat \<Rightarrow> (nat \<times> nat) list" where
  "index_pairs n = concat (map (\<lambda>i. map (\<lambda>j. (i, j)) [i + 1 ..< n]) [0 ..< n])"

definition pair_before :: "nat \<times> nat \<Rightarrow> nat \<times> nat \<Rightarrow> bool" where
  "pair_before a b \<longleftrightarrow> fst a < fst b \<or> (fst a = fst b \<and> snd a < snd b)"

text \<open>
  The engine is \<open>calm\<close> before each of the next \<open>n\<close> steps (and each of them returns).
  An engine without forces that has a single point is (lemma \<open>lone_point_calm\<close>).
\<close>

fun calm_steps :: "nat \<Rightarrow> real \<Rightarrow> PhysicsSimulation \<Rightarrow> bool" where
  "calm_steps 0 deltaTime s = True"
| "calm_steps (Suc n) deltaTime s =
     (calm s \<and> (case update deltaTime s of Inl e \<Rightarrow> False | Inr s' \<Rightarrow> calm_steps n deltaTime s'))"

subsection \<open>Growth engine\<close>

text \<open>The contract of \<^verbatim>\<open>Math.random()\<close>: every draw lies in \<open>[0, 1)\<close>.\<close>

definition random_draws :: "(nat \<Rightarrow> real) \<Rightarrow> bool" where
  "random_draws rnd \<longleftrightarrow> (\<forall>n. 0 \<le> rnd n \<and> rnd n < 1)"

text \<open>
  The child that one iteration of the spawn loop pushes when the loop's draws start at the
  counter \<open>k\<close>: \<open>spawn_child\<close> with the cap not reached (lemma \<open>spawn_child_shape\<close>).
\<close>

definition child_at :: "GrowthSettings \<Rightarrow> real \<Rightarrow> (nat \<Rightarrow> real) \<Rightarrow> Branch \<Rightarrow> nat \<Rightarrow> Branch" where
  "child_at settings now rnd branch k =
     fst (new_child settings now rnd branch
            (angle branch +
               (if drawingMode settings = Organic then (rnd k - 0.5) * pi * 0.4
                else (rnd k - 0.5) * pi * 0.6))
            (length_b branch * (0.6 + rnd (k + 1) * 0.3))
            (k + 2))"

text \<open>
  What \<open>animateBranches\<close> makes of a branch object it processes: the growth tick, the
  assignment \<^verbatim>\<open>branch.lastGrowth = now\<close> when the branch has spawned (\<open>t\<close>), and the
  pulse of the final \<^verbatim>\<open>map\<close> (lemma \<open>animateBranches_shape\<close>).
\<close>

definition touched :: "bool \<Rightarrow> real \<Rightarrow> Branch \<Rightarrow> Branch" where
  "touched t now b = (if t then b\<lparr>lastGrowth := now\<rparr> else b)"

definition survivor :: "GrowthSettings \<Rightarrow> bool \<Rightarrow> real \<Rightarrow> real \<Rightarrow> bool \<Rightarrow> Branch \<Rightarrow> Branch" where
  "survivor settings cb now sm t b =
     pulse settings now (touched t now (fst (grow settings cb now sm b)))"

text \<open>The invariant of a branch that the claim C8 states.\<close>

definition branch_inv :: "Branch \<Rightarrow> bool" where
  "branch_inv b \<longleftrightarrow> 0 \<le> progress b \<and> progress b \<le> maxProgress b \<and> 0 \<le> generation b"

text \<open>
  A sequence of calls of \<open>animateBranches\<close>, each on the branches the call before it
  returned; a frame is the growth speed, the settings, whether a callback is passed, and
  the time of the call.
\<close>

fun animate_frames ::
  "(real \<times> GrowthSettings \<times> bool \<times> real) list \<Rightarrow> (nat \<Rightarrow> real) \<Rightarrow> Branch list \<times> nat
   \<Rightarrow> Branch list \<times> nat" where
  "animate_frames [] rnd st = st"
| "animate_frames ((growthSpeed, settings, hasCallback, now) # frames) rnd (branches, k) =
     (case animateBranches branches growthSpeed settings hasCallback now rnd k of
        (branches', calls, k') \<Rightarrow> animate_frames frames rnd (branches', k'))"

text \<open>
  What the spawn loop makes of a child, relative to its parent: the start at the parent's
  end point, the generation, the ranges of the angle, the length, the growth counters
  and the time stamp.
\<close>

definition spawned_from :: "GrowthSettings \<Rightarrow> real \<Rightarrow> Branch \<Rightarrow> Branch \<Rightarrow> bool" where
  "spawned_from settings now parent child \<longleftrightarrow>
     startX child = startX parent + cos (angle parent) * length_b parent
   \<and> startY child = startY parent + sin (angle parent) * length_b parent
   \<and> endX child = startX child + cos (angle child) * length_b child
   \<and> endY child = startY child + sin (angle child) * length_b child
   \<and> generation child = generation parent + 1
   \<and> \<bar>angle child - angle parent\<bar>
       \<le> (if drawingMode settings = Organic then 0.2 else 0.3) * pi
   \<and> (if length_b parent = 0 then length_b child = 0
       else 0.6 \<le> length_b child / length_b parent \<and> length_b child / length_b parent < 0.9)
   \<and> opacity child = max 0.3 (opacity parent - real_of_int (generation parent) * 0.15)
   \<and> progress child = 0
   \<and> 40 \<le> maxProgress child \<and> maxProgress child < 70
   \<and> now \<le> lastGrowth child \<and> lastGrowth child < now + 1000"

text \<open>
  A branch whose progress reaches \<open>maxProgress\<close> in a call at time \<open>now\<close>: it is below
  \<open>maxProgress\<close>, its growth tick is due, and the increment takes it to \<open>maxProgress\<close>.
  \<open>completion_call\<close> is the call of the callback for it: its end point and its color.
\<close>

definition completes :: "real \<Rightarrow> real \<Rightarrow> Branch \<Rightarrow> bool" where
  "completes now speedMultiplier b \<longleftrightarrow>
     progress b < maxProgress b \<and> now - lastGrowth b > 16
     \<and> maxProgress b \<le> progress b + speedMultiplier"

definition completion_call :: "Branch \<Rightarrow> callback_call" where
  "completion_call b =
     (startX b + cos (angle b) * length_b b, startY b + sin (angle b) * length_b b, color b)"

text \<open>
  The life of one branch object over a sequence of calls that process it: the object after
  the calls, and the calls of the callback made for it. A frame is the settings, whether a
  callback is passed, the time, the growth speed, and whether the branch spawns in it.
\<close>

fun branch_life ::
  "(GrowthSettings \<times> bool \<times> real \<times> real \<times> bool) list \<Rightarrow> Branch \<Rightarrow> Branch \<times> callback_call list"
  where
  "branch_life [] b = (b, [])"
| "branch_life ((settings, hasCallback, now, growthSpeed, t) # frames) b =
     (case branch_life frames (survivor settings hasCallback now (growthSpeed / 50) t b) of
        (b', calls) \<Rightarrow> (b', snd (grow settings hasCallback now (growthSpeed / 50) b) @ calls))"

text \<open>Settings, branches and strokes for the examples.\<close>

definition neural15 :: GrowthSettings where
  "neural15 = \<lparr>branchComplexity = 15, selectedColor = ''#00E0FF'', drawingMode = Neural,
                particleEffects = True\<rparr>"


definition ripe :: Branch where
  "ripe = \<lparr>startX = 0, startY = 0, endX = 40, endY = 0, angle = 0, length_b = 40,
            generation = 0, progress = 60, maxProgress = 60, color = ''#00E0FF'',
            opacity = 0.8, lastGrowth = 0\<rparr>"

definition ripe_child :: Branch where
  "ripe_child = \<lparr>startX = 40, startY = 0, endX = 40 + cos ((0 - 0.5) * pi * 0.6) * 24,
            endY = sin ((0 - 0.5) * pi * 0.6) * 24, angle = (0 - 0.5) * pi * 0.6, length_b = 24,
            generation = 1, progress = 0, maxProgress = 40, color = ''#FF2CFB'',
            opacity = 0.8, lastGrowth = 2020\<rparr>"

definition nearly :: Branch where
  "nearly = \<lparr>startX = 0, startY = 0, endX = 40, endY = 0, angle = 0, length_b = 40,
              generation = 0, progress = 59.5, maxProgress = 60, color = ''#00E0FF'',
              opacity = 0.8, lastGrowth = 0\<rparr>"

definition stroke0 :: "Point list" where
  "stroke0 = [\<lparr>pt_x = 0, pt_y = 0\<rparr>, \<lparr>pt_x = 100, pt_y = 0\<rparr>]"


definition frames0 :: "(real \<times> GrowthSettings \<times> bool \<times> real) list" where
  "frames0 = [(50, neural15, True, 5000), (50, neural15, True, 5033)]"





section \<open>Lemmas on the physics engine\<close>

subsection \<open>The passes keep the number of points, their flags and their velocities\<close>

lemma fold_preserves:
  assumes "P s" and "\<And>x t. P t \<Longrightarrow> P (f x t)"
  shows "P (fold f xs s)"
  using assms(1) by (induction xs arbitrary: s) (simp_all add: assms(2))

lemma fold_unchanged:
  "(\<And>x. x \<in> set xs \<Longrightarrow> f x s = s) \<Longrightarrow> fold f xs s = s"
  by (induction xs) simp_all

lemma map_fixed_update:
  "(i < length pts \<Longrightarrow> fixed (pts ! i) = b) \<Longrightarrow> (map fixed pts)[i := b] = map fixed pts"
  by (cases "i < length pts") (auto simp: list_update_same_conv list_update_beyond)

lemma apply_spring_shape:
  "apply_spring sp pts = Inr pts' \<Longrightarrow> length pts' = length pts \<and> map fixed pts' = map fixed pts"
  by (auto simp: apply_spring_def Let_def point_at_def map_update map_fixed_update
      split: option.splits if_splits)

lemma apply_springs_shape:
  "apply_springs sps pts = Inr pts' \<Longrightarrow> length pts' = length pts \<and> map fixed pts' = map fixed pts"
proof (induction sps arbitrary: pts)
  case Nil
  then show ?case by simp
next
  case (Cons sp sps)
  then obtain mid where m: "apply_spring sp pts = Inr mid" "apply_springs sps mid = Inr pts'"
    by (auto split: sum.splits)
  from Cons.IH[OF m(2)] apply_spring_shape[OF m(1)] show ?case by simp
qed

lemma apply_constraint_shape:
  "apply_constraint c pts = Inr pts' \<Longrightarrow> length pts' = length pts \<and> map fixed pts' = map fixed pts"
  by (auto simp: apply_constraint_def Let_def point_at_def map_update map_fixed_update
      split: option.splits if_splits)

lemma apply_constraints_shape:
  "apply_constraints cs pts = Inr pts' \<Longrightarrow> length pts' = length pts \<and> map fixed pts' = map fixed pts"
proof (induction cs arbitrary: pts)
  case Nil
  then show ?case by simp
next
  case (Cons c cs)
  then obtain mid where m: "apply_constraint c pts = Inr mid" "apply_constraints cs mid = Inr pts'"
    by (auto split: sum.splits)
  from Cons.IH[OF m(2)] apply_constraint_shape[OF m(1)] show ?case by simp
qed

lemma collide_pair_shape:
  "length (collide_pair i j pts) = length pts \<and> map fixed (collide_pair i j pts) = map fixed pts"
  by (simp add: collide_pair_def Let_def map_update map_fixed_update)

lemma collisions_shape:
  "length (collisions pts) = length pts \<and> map fixed (collisions pts) = map fixed pts"
  unfolding collisions_def
  by (rule fold_preserves, simp, rule fold_preserves, simp, simp add: collide_pair_shape)

lemma pre_integrate_shape:
  assumes "pre_integrate s = Inr pts"
  shows "length pts = length (points s) \<and> map fixed pts = map fixed (points s)"
proof -
  define pts2 where "pts2 =
    (let pts0 = map reset_acceleration (points s);
         pts1 = (if gravity s > 0 then map (apply_gravity (gravity s)) pts0 else pts0)
     in if wind_x s \<noteq> 0 \<or> wind_y s \<noteq> 0 then map (apply_wind (wind_x s) (wind_y s)) pts1
        else pts1)"
  have shape2: "length pts2 = length (points s) \<and> map fixed pts2 = map fixed (points s)"
    by (simp add: pts2_def Let_def reset_acceleration_def apply_gravity_def apply_wind_def comp_def)
  from assms obtain pts3 where
    s3: "apply_springs (springs s) pts2 = Inr pts3" and
    c3: "apply_constraints (constraints s) (collisions pts3) = Inr pts"
    by (auto simp: pre_integrate_def pts2_def Let_def split: sum.splits if_splits)
  show ?thesis
    using shape2 apply_springs_shape[OF s3] collisions_shape[of pts3]
      apply_constraints_shape[OF c3]
    by simp
qed

lemma integrate_fixed_flag: "fixed (integrate_point w h dt p) = fixed p"
  by (simp add: integrate_point_def Let_def)

lemma update_shape:
  assumes "update dt s = Inr s'"
  shows "length (points s') = length (points s) \<and> map fixed (points s') = map fixed (points s)"
proof -
  from assms obtain pts where
    pre: "pre_integrate s = Inr pts" and
    s': "points s' = map (integrate_point (canvasWidth s) (canvasHeight s) dt) pts"
    by (auto simp: update_def split: sum.splits)
  show ?thesis using pre_integrate_shape[OF pre] by (simp add: s' integrate_fixed_flag comp_def)
qed

lemma map_motion_update:
  "(i < length pts \<Longrightarrow> motion (pts ! i) = m) \<Longrightarrow> (map motion pts)[i := m] = map motion pts"
  by (cases "i < length pts") (auto simp: list_update_same_conv list_update_beyond)

lemma collide_pair_motion: "map motion (collide_pair i j pts) = map motion pts"
  by (simp add: collide_pair_def Let_def map_update map_motion_update motion_def)

lemma collisions_motion: "map motion (collisions pts) = map motion pts"
  unfolding collisions_def
  by (rule fold_preserves, simp, rule fold_preserves, simp, simp add: collide_pair_motion)

subsection \<open>The damping field of a spring\<close>

lemma apply_spring_damping: "apply_spring (sp\<lparr>damping := d\<rparr>) pts = apply_spring sp pts"
  by (simp add: apply_spring_def Let_def split: option.splits)

lemma apply_springs_damping:
  "apply_springs (map (\<lambda>sp. sp\<lparr>damping := d\<rparr>) sps) pts = apply_springs sps pts"
  by (induction sps arbitrary: pts) (simp_all add: apply_spring_damping split: sum.splits)

lemma pre_integrate_damping:
  assumes "differ_in_damping_only s t"
  shows "pre_integrate s = pre_integrate t"
proof -
  have "apply_springs (springs s) pts = apply_springs (springs t) pts" for pts
    using assms apply_springs_damping[of 0 "springs s" pts]
      apply_springs_damping[of 0 "springs t" pts]
    by (simp add: differ_in_damping_only_def)
  then show ?thesis using assms
    by (simp add: pre_integrate_def differ_in_damping_only_def Let_def cong: sum.case_cong)
qed

subsection \<open>Distances\<close>

lemma separation_nonneg: "0 \<le> separation p q"
  by (simp add: separation_def)

lemma separation_same: "separation p p = 0"
  by (simp add: separation_def)

lemma separation_reset:
  "separation (reset_acceleration p) (reset_acceleration q) = separation p q"
  by (simp add: separation_def reset_acceleration_def)

lemma point_at_Some: "point_at pts i = Some p \<Longrightarrow> 0 \<le> i \<and> nat i < length pts \<and> pts ! nat i = p"
  by (auto simp: point_at_def split: if_splits)

lemma sqrt_scaled:
  assumes "0 \<le> k"
  shows "sqrt ((k * a) * (k * a) + (k * b) * (k * b)) = k * sqrt (a * a + b * b)"
proof -
  have "(k * a) * (k * a) + (k * b) * (k * b) = k\<^sup>2 * (a * a + b * b)"
    by (simp add: power2_eq_square algebra_simps)
  then show ?thesis using assms by (simp add: real_sqrt_mult)
qed

lemma separation_moved:
  assumes "0 \<le> k"
    and "p_x q2 - p_x q1 = k * (p_x p2 - p_x p1)"
    and "p_y q2 - p_y q1 = k * (p_y p2 - p_y p1)"
  shows "separation q1 q2 = k * separation p1 p2"
  unfolding separation_def assms(2,3) by (rule sqrt_scaled[OF assms(1)])

lemma sqrt_numerals:
  "sqrt 4 = 2" "sqrt 25 = 5" "sqrt 36 = 6" "sqrt 64 = 8" "sqrt 100 = 10" "sqrt 144 = 12"
  "sqrt 400 = 20"
  using real_sqrt_abs2[of 2] real_sqrt_abs2[of 5] real_sqrt_abs2[of 6] real_sqrt_abs2[of 8]
    real_sqrt_abs2[of 10] real_sqrt_abs2[of 12] real_sqrt_abs2[of 20]
  by simp_all

lemma sqrt_361: "sqrt 361 = 19"
  using real_sqrt_abs2[of 19] by simp

subsection \<open>Collisions\<close>

lemma collide_pair_result:
  assumes "0 < separation (pts ! i) (pts ! j)" "separation (pts ! i) (pts ! j) < 10"
  shows "collide_pair i j pts =
     pts[i := push_first (pts ! i) (pts ! j), j := push_second (pts ! i) (pts ! j)]"
proof -
  have d': "0 < sqrt ((p_x (pts ! j) - p_x (pts ! i)) * (p_x (pts ! j) - p_x (pts ! i))
     + (p_y (pts ! j) - p_y (pts ! i)) * (p_y (pts ! j) - p_y (pts ! i)))"
    "sqrt ((p_x (pts ! j) - p_x (pts ! i)) * (p_x (pts ! j) - p_x (pts ! i))
     + (p_y (pts ! j) - p_y (pts ! i)) * (p_y (pts ! j) - p_y (pts ! i))) < 10"
    using assms by (simp_all add: separation_def)
  show ?thesis
    unfolding collide_pair_def Let_def push_first_def push_second_def separation_def
    using d' by (simp del: real_sqrt_gt_0_iff real_sqrt_lt_0_iff)
qed

lemma collide_pair_skip:
  assumes "separation (pts ! i) (pts ! j) = 0 \<or> 10 \<le> separation (pts ! i) (pts ! j)"
  shows "collide_pair i j pts = pts"
  using assms by (auto simp: collide_pair_def Let_def separation_def)

lemma collisions_two_points:
  "length pts = 2 \<Longrightarrow> collisions pts = collide_pair 0 1 pts"
  by (simp add: collisions_def numeral_2_eq_2 upt_rec)

lemma collisions_unchanged:
  assumes "\<And>i j. i < j \<Longrightarrow> j < length pts \<Longrightarrow>
     separation (pts ! i) (pts ! j) = 0 \<or> 10 \<le> separation (pts ! i) (pts ! j)"
  shows "collisions pts = pts"
  unfolding collisions_def
proof (rule fold_unchanged)
  fix i assume "i \<in> set [0 ..< length pts]"
  show "fold (\<lambda>j. collide_pair i j) [i + 1 ..< length pts] pts = pts"
  proof (rule fold_unchanged)
    fix j assume "j \<in> set [i + 1 ..< length pts]"
    then have "i < j" "j < length pts" by simp_all
    from assms[OF this] show "collide_pair i j pts = pts" by (rule collide_pair_skip)
  qed
qed

lemma close_pair_separation: "separation (close_pair ! 0) (close_pair ! 1) = 5"
  by (simp add: close_pair_def free_point_def separation_def sqrt_numerals)

lemma cluster_collisions:
  "collisions cluster = [free_point (- 1) 0, free_point 5 0, free_point 15 0]"
  by (simp add: collisions_def cluster_def free_point_def collide_pair_def Let_def sqrt_numerals
      upt_rec)

lemma drifting_collisions:
  "collisions drifting = [free_point 9 50, free_point 18 50, free_point (- 1) 50]"
  by (simp add: collisions_def drifting_def free_point_def collide_pair_def Let_def sqrt_numerals
      sqrt_361 upt_rec)

subsection \<open>The integration of a free point\<close>

lemma integrate_point_free:
  assumes "\<not> fixed q" "10 \<le> width" "10 \<le> height"
  shows "(p_x (integrate_point width height dt q), vx (integrate_point width height dt q))
           = bounced width (moved_x dt q) (moved_vx dt q)"
    and "(p_y (integrate_point width height dt q), vy (integrate_point width height dt q))
           = bounced height (moved_y dt q) (moved_vy dt q)"
  using assms
  by (simp_all add: integrate_point_def Let_def bounced_def moved_x_def moved_y_def
      moved_vx_def moved_vy_def)

lemma bounced_in_range:
  "10 \<le> limit \<Longrightarrow> 5 \<le> fst (bounced limit c v) \<and> fst (bounced limit c v) \<le> limit - 5"
  by (simp add: bounced_def)

lemma bounced_displacement:
  "5 \<le> x \<Longrightarrow> x \<le> limit - 5 \<Longrightarrow> \<bar>fst (bounced limit c v) - x\<bar> \<le> \<bar>c - x\<bar>"
  by (simp add: bounced_def)

lemma moved_reset:
  "moved_vx dt (reset_acceleration p) = 0.999 * vx p"
  "moved_vy dt (reset_acceleration p) = 0.999 * vy p"
  "moved_x dt (reset_acceleration p) = p_x p + 0.999 * vx p * dt"
  "moved_y dt (reset_acceleration p) = p_y p + 0.999 * vy p * dt"
  by (simp_all add: moved_vx_def moved_vy_def moved_x_def moved_y_def reset_acceleration_def)

lemma integrate_velocity:
  assumes "\<not> fixed q" "ax q = 0" "ay q = 0"
  shows "\<bar>vx (integrate_point w h dt q)\<bar> \<le> 0.999 * \<bar>vx q\<bar>"
    and "\<bar>vy (integrate_point w h dt q)\<bar> \<le> 0.999 * \<bar>vy q\<bar>"
  using assms
  by (auto simp: integrate_point_def Let_def abs_mult)

subsection \<open>Steps without forces\<close>

lemma forceless_pre_integrate:
  assumes "forceless s"
  shows "pre_integrate s = Inr (collisions (map reset_acceleration (points s)))"
  using assms by (simp add: pre_integrate_def forceless_def)

lemma forceless_update:
  assumes "forceless s"
  shows "update dt s = Inr (s\<lparr>points :=
     map (integrate_point (canvasWidth s) (canvasHeight s) dt)
       (collisions (map reset_acceleration (points s)))\<rparr>)"
  by (simp add: update_def forceless_pre_integrate[OF assms])

lemma forceless_step:
  assumes "forceless s" "i < length (points s)" "\<not> fixed (points s ! i)"
  shows "\<exists>s'. update dt s = Inr s' \<and> forceless s' \<and> length (points s') = length (points s)
     \<and> \<not> fixed (points s' ! i)
     \<and> \<bar>vx (points s' ! i)\<bar> \<le> 0.999 * \<bar>vx (points s ! i)\<bar>
     \<and> \<bar>vy (points s' ! i)\<bar> \<le> 0.999 * \<bar>vy (points s ! i)\<bar>"
proof -
  define pts where "pts = collisions (map reset_acceleration (points s))"
  define s' where "s' = s\<lparr>points :=
     map (integrate_point (canvasWidth s) (canvasHeight s) dt) pts\<rparr>"
  have u: "update dt s = Inr s'"
    using forceless_update[OF assms(1)] by (simp add: s'_def pts_def)
  have f': "forceless s'" using assms(1) by (simp add: forceless_def s'_def)
  have len: "length pts = length (points s)"
    using collisions_shape[of "map reset_acceleration (points s)"] by (simp add: pts_def)
  then have len': "length (points s') = length (points s)" by (simp add: s'_def)
  have "map fixed pts = map fixed (map reset_acceleration (points s))"
    using collisions_shape[of "map reset_acceleration (points s)"] by (simp add: pts_def)
  then have "fixed (pts ! i) = fixed (reset_acceleration (points s ! i))"
    using assms(2) len by (metis length_map nth_map)
  then have free: "\<not> fixed (pts ! i)" using assms(3) by (simp add: reset_acceleration_def)
  have "map motion pts = map motion (map reset_acceleration (points s))"
    by (simp add: pts_def collisions_motion)
  then have "motion (pts ! i) = motion (reset_acceleration (points s ! i))"
    using assms(2) len by (metis length_map nth_map)
  then have m: "vx (pts ! i) = vx (points s ! i)" "vy (pts ! i) = vy (points s ! i)"
    "ax (pts ! i) = 0" "ay (pts ! i) = 0"
    by (simp_all add: motion_def reset_acceleration_def)
  have pi: "points s' ! i = integrate_point (canvasWidth s) (canvasHeight s) dt (pts ! i)"
    using assms(2) len by (simp add: s'_def)
  have fr': "\<not> fixed (points s' ! i)" using free by (simp add: pi integrate_fixed_flag)
  have bx: "\<bar>vx (points s' ! i)\<bar> \<le> 0.999 * \<bar>vx (points s ! i)\<bar>"
    using integrate_velocity(1)[OF free m(3,4)] by (simp only: pi m)
  have bv: "\<bar>vy (points s' ! i)\<bar> \<le> 0.999 * \<bar>vy (points s ! i)\<bar>"
    using integrate_velocity(2)[OF free m(3,4)] by (simp only: pi m)
  show ?thesis
    by (rule exI[of _ s']) (intro conjI u f' len' fr' bx bv)
qed

lemma forceless_decay:
  assumes "forceless s" "i < length (points s)" "\<not> fixed (points s ! i)"
  shows "\<exists>t. updates n dt s = Inr t
           \<and> \<bar>vx (points t ! i)\<bar> \<le> 0.999 ^ n * \<bar>vx (points s ! i)\<bar>
           \<and> \<bar>vy (points t ! i)\<bar> \<le> 0.999 ^ n * \<bar>vy (points s ! i)\<bar>"
  using assms
proof (induction n arbitrary: s)
  case 0
  then show ?case by simp
next
  case (Suc n)
  from forceless_step[OF Suc.prems, of dt] obtain s' where
    s': "update dt s = Inr s'" "forceless s'" "length (points s') = length (points s)"
     "\<not> fixed (points s' ! i)"
     "\<bar>vx (points s' ! i)\<bar> \<le> 0.999 * \<bar>vx (points s ! i)\<bar>"
     "\<bar>vy (points s' ! i)\<bar> \<le> 0.999 * \<bar>vy (points s ! i)\<bar>"
    by blast
  have i': "i < length (points s')" using Suc.prems(2) s'(3) by simp
  from Suc.IH[OF s'(2) i' s'(4)] obtain t where t: "updates n dt s' = Inr t"
    "\<bar>vx (points t ! i)\<bar> \<le> 0.999 ^ n * \<bar>vx (points s' ! i)\<bar>"
    "\<bar>vy (points t ! i)\<bar> \<le> 0.999 ^ n * \<bar>vy (points s' ! i)\<bar>"
    by blast
  have "\<bar>vx (points t ! i)\<bar> \<le> 0.999 ^ n * \<bar>vx (points s' ! i)\<bar>" by (rule t(2))
  also have "\<dots> \<le> 0.999 ^ n * (0.999 * \<bar>vx (points s ! i)\<bar>)"
    by (rule mult_left_mono[OF s'(5)]) simp
  finally have bx: "\<bar>vx (points t ! i)\<bar> \<le> 0.999 ^ Suc n * \<bar>vx (points s ! i)\<bar>"
    by (simp only: power_Suc2 mult.assoc)
  have "\<bar>vy (points t ! i)\<bar> \<le> 0.999 ^ n * \<bar>vy (points s' ! i)\<bar>" by (rule t(3))
  also have "\<dots> \<le> 0.999 ^ n * (0.999 * \<bar>vy (points s ! i)\<bar>)"
    by (rule mult_left_mono[OF s'(6)]) simp
  finally have bv: "\<bar>vy (points t ! i)\<bar> \<le> 0.999 ^ Suc n * \<bar>vy (points s ! i)\<bar>"
    by (simp only: power_Suc2 mult.assoc)
  have ut: "updates (Suc n) dt s = Inr t" using s'(1) t(1) by simp
  show ?case
    by (rule exI[of _ t]) (intro conjI ut bx bv)
qed

lemma calm_forceless: "calm s \<Longrightarrow> forceless s"
  by (simp add: calm_def forceless_def)

lemma calm_pre_integrate:
  assumes "calm s"
  shows "pre_integrate s = Inr (map reset_acceleration (points s))"
proof -
  have "collisions (map reset_acceleration (points s)) = map reset_acceleration (points s)"
    using assms by (intro collisions_unchanged) (simp add: calm_def separation_reset)
  then show ?thesis using assms by (simp add: pre_integrate_def calm_def)
qed

lemma calm_update:
  assumes "calm s"
  shows "update dt s = Inr (s\<lparr>points :=
     map (\<lambda>p. integrate_point (canvasWidth s) (canvasHeight s) dt (reset_acceleration p)) (points s)\<rparr>)"
  by (simp add: update_def calm_pre_integrate[OF assms] comp_def)

subsection \<open>The accelerations of a step\<close>

lemma frame_fields:
  "frame p = frame q \<Longrightarrow>
     p_x p = p_x q \<and> p_y p = p_y q \<and> vx p = vx q \<and> vy p = vy q \<and> mass p = mass q
     \<and> fixed p = fixed q"
  by (simp add: frame_def)

lemma point_at_frame:
  assumes "map frame pts = map frame qts"
  shows "(point_at pts i = None \<longleftrightarrow> point_at qts i = None)"
    and "point_at pts i = Some p \<Longrightarrow> point_at qts i = Some q \<Longrightarrow> frame p = frame q"
proof -
  have len: "length pts = length qts" using assms by (rule map_eq_imp_length_eq)
  show "(point_at pts i = None \<longleftrightarrow> point_at qts i = None)"
    by (simp add: point_at_def len)
  assume "point_at pts i = Some p" "point_at qts i = Some q"
  then have "nat i < length pts" "pts ! nat i = p" "qts ! nat i = q"
    by (auto simp: point_at_def len split: if_splits)
  then have "frame p = map frame pts ! nat i" "frame q = map frame qts ! nat i"
    using len by simp_all
  then show "frame p = frame q" using assms by simp
qed

lemma spring_pull_frame:
  assumes "map frame pts = map frame qts"
  shows "spring_pull c sp pts k = spring_pull c sp qts k"
proof (cases "point_at pts (point1 sp)")
  case None
  then have "point_at qts (point1 sp) = None" using point_at_frame(1)[OF assms] by simp
  with None show ?thesis by (simp add: spring_pull_def)
next
  case (Some p1)
  then obtain q1 where q1: "point_at qts (point1 sp) = Some q1"
    using point_at_frame(1)[OF assms, of "point1 sp"] by (cases "point_at qts (point1 sp)") auto
  note f1 = frame_fields[OF point_at_frame(2)[OF assms Some q1]]
  show ?thesis
  proof (cases "point_at pts (point2 sp)")
    case None
    then have "point_at qts (point2 sp) = None" using point_at_frame(1)[OF assms] by simp
    with None Some q1 show ?thesis by (simp add: spring_pull_def)
  next
    case p2: (Some p2)
    then obtain q2 where q2: "point_at qts (point2 sp) = Some q2"
      using point_at_frame(1)[OF assms, of "point2 sp"] by (cases "point_at qts (point2 sp)") auto
    note f2 = frame_fields[OF point_at_frame(2)[OF assms p2 q2]]
    show ?thesis
      unfolding spring_pull_def Some p2 q1 q2 separation_def option.case prod.case
      by (simp only: f1 f2)
  qed
qed

lemma spring_pull_damping: "spring_pull c (sp\<lparr>damping := d\<rparr>) pts k = spring_pull c sp pts k"
  by (simp add: spring_pull_def Let_def split del: if_split cong: if_cong option.case_cong)

lemma map_frame_update:
  "(i < length pts \<Longrightarrow> frame (pts ! i) = m) \<Longrightarrow> (map frame pts)[i := m] = map frame pts"
  by (cases "i < length pts") (auto simp: list_update_same_conv list_update_beyond)

lemma apply_spring_frame:
  "apply_spring sp pts = Inr pts' \<Longrightarrow> map frame pts' = map frame pts"
  by (auto simp: apply_spring_def Let_def point_at_def map_update map_frame_update frame_def
      split: option.splits if_splits)

lemma apply_spring_result:
  assumes p1: "point_at pts (point1 sp) = Some p1"
    and p2: "point_at pts (point2 sp) = Some p2"
  shows "(separation p1 p2 = 0 \<longrightarrow> apply_spring sp pts = Inr pts)
    \<and> (separation p1 p2 > 0 \<longrightarrow>
         (\<exists>pts'. apply_spring sp pts = Inr pts' \<and> length pts' = length pts
            \<and> pts' ! nat (point1 sp) =
                (if fixed p1 then p1
                 else p1\<lparr>ax := ax p1
                          + (p_x p2 - p_x p1) / separation p1 p2
                            * ((separation p1 p2 - restLength sp) * stiffness sp) / mass p1
                          + (vx p2 - vx p1) * 0.05,
                        ay := ay p1
                          + (p_y p2 - p_y p1) / separation p1 p2
                            * ((separation p1 p2 - restLength sp) * stiffness sp) / mass p1
                          + (vy p2 - vy p1) * 0.05\<rparr>)
            \<and> pts' ! nat (point2 sp) =
                (if fixed p2 then p2
                 else p2\<lparr>ax := ax p2
                          - (p_x p2 - p_x p1) / separation p1 p2
                            * ((separation p1 p2 - restLength sp) * stiffness sp) / mass p2
                          - (vx p2 - vx p1) * 0.05,
                        ay := ay p2
                          - (p_y p2 - p_y p1) / separation p1 p2
                            * ((separation p1 p2 - restLength sp) * stiffness sp) / mass p2
                          - (vy p2 - vy p1) * 0.05\<rparr>)
            \<and> (\<forall>k < length pts. k \<noteq> nat (point1 sp) \<and> k \<noteq> nat (point2 sp)
                  \<longrightarrow> pts' ! k = pts ! k)))"
proof -
  note i = point_at_Some[OF p1] and j = point_at_Some[OF p2]
  have zero: "apply_spring sp pts = Inr pts" if "separation p1 p2 = 0"
    using that p1 p2 by (simp add: apply_spring_def Let_def separation_def)
  have pos: ?thesis if d: "separation p1 p2 > 0"
  proof -
    have ne: "nat (point1 sp) \<noteq> nat (point2 sp)"
    proof
      assume "nat (point1 sp) = nat (point2 sp)"
      then have "p1 = p2" using i j by simp
      then show False using d by (simp add: separation_same)
    qed
    have d': "0 < sqrt ((p_x p2 - p_x p1) * (p_x p2 - p_x p1) + (p_y p2 - p_y p1) * (p_y p2 - p_y p1))"
      using d by (simp add: separation_def)
    show ?thesis
      using d p1 p2 i j ne d'
      by (simp add: apply_spring_def Let_def separation_def nth_list_update del: real_sqrt_gt_0_iff)
  qed
  show ?thesis
    using zero pos separation_nonneg[of p1 p2] by (cases "separation p1 p2 = 0") auto
qed

lemma apply_spring_accel:
  assumes "apply_spring sp pts = Inr pts'" "k < length pts"
  shows "ax (pts' ! k) = ax (pts ! k) + fst (spring_pull 0.05 sp pts k)
       \<and> ay (pts' ! k) = ay (pts ! k) + snd (spring_pull 0.05 sp pts k)"
proof -
  from assms(1) obtain p1 p2 where
    p1: "point_at pts (point1 sp) = Some p1" and p2: "point_at pts (point2 sp) = Some p2"
    by (auto simp: apply_spring_def split: option.splits)
  note i = point_at_Some[OF p1] and j = point_at_Some[OF p2]
  note r = apply_spring_result[OF p1 p2]
  show ?thesis
  proof (cases "separation p1 p2 > 0")
    case False
    then have "separation p1 p2 = 0" using separation_nonneg[of p1 p2] by simp
    with r assms(1) have "pts' = pts" by simp
    then show ?thesis using False p1 p2 by (simp add: spring_pull_def Let_def)
  next
    case True
    have ne: "nat (point1 sp) \<noteq> nat (point2 sp)"
    proof
      assume "nat (point1 sp) = nat (point2 sp)"
      then have "p1 = p2" using i j by simp
      then show False using True by (simp add: separation_same)
    qed
    from r True assms(1) have
      r1: "pts' ! nat (point1 sp) =
                (if fixed p1 then p1
                 else p1\<lparr>ax := ax p1
                          + (p_x p2 - p_x p1) / separation p1 p2
                            * ((separation p1 p2 - restLength sp) * stiffness sp) / mass p1
                          + (vx p2 - vx p1) * 0.05,
                        ay := ay p1
                          + (p_y p2 - p_y p1) / separation p1 p2
                            * ((separation p1 p2 - restLength sp) * stiffness sp) / mass p1
                          + (vy p2 - vy p1) * 0.05\<rparr>)" and
      r2: "pts' ! nat (point2 sp) =
                (if fixed p2 then p2
                 else p2\<lparr>ax := ax p2
                          - (p_x p2 - p_x p1) / separation p1 p2
                            * ((separation p1 p2 - restLength sp) * stiffness sp) / mass p2
                          - (vx p2 - vx p1) * 0.05,
                        ay := ay p2
                          - (p_y p2 - p_y p1) / separation p1 p2
                            * ((separation p1 p2 - restLength sp) * stiffness sp) / mass p2
                          - (vy p2 - vy p1) * 0.05\<rparr>)" and
      r3: "\<forall>k < length pts. k \<noteq> nat (point1 sp) \<and> k \<noteq> nat (point2 sp)
                  \<longrightarrow> pts' ! k = pts ! k"
      by auto
    consider (a) "k = nat (point1 sp)" | (b) "k = nat (point2 sp)"
      | (c) "k \<noteq> nat (point1 sp)" "k \<noteq> nat (point2 sp)" by blast
    then show ?thesis
    proof cases
      case a
      then have pk: "pts ! k = p1" using i by simp
      show ?thesis
        unfolding spring_pull_def p1 p2 option.case prod.case Let_def a[symmetric] pk
        using True r1 a pk ne by simp
    next
      case b
      then have pk: "pts ! k = p2" using j by simp
      have nk: "k \<noteq> nat (point1 sp)" using b ne by simp
      show ?thesis
        unfolding spring_pull_def p1 p2 option.case prod.case Let_def pk
        using True r2 b pk nk by simp
    next
      case c
      then show ?thesis
        unfolding spring_pull_def p1 p2 option.case prod.case Let_def
        using r3 assms(2) by simp
    qed
  qed
qed

lemma apply_springs_accel:
  assumes "apply_springs sps pts = Inr pts'" "k < length pts"
  shows "map frame pts' = map frame pts
       \<and> ax (pts' ! k) = ax (pts ! k) + sum_list (map (\<lambda>sp. fst (spring_pull 0.05 sp pts k)) sps)
       \<and> ay (pts' ! k) = ay (pts ! k) + sum_list (map (\<lambda>sp. snd (spring_pull 0.05 sp pts k)) sps)"
  using assms
proof (induction sps arbitrary: pts)
  case Nil
  then show ?case by simp
next
  case (Cons sp sps)
  then obtain mid where m: "apply_spring sp pts = Inr mid" "apply_springs sps mid = Inr pts'"
    by (auto split: sum.splits)
  note f = apply_spring_frame[OF m(1)]
  have k: "k < length mid" using apply_spring_shape[OF m(1)] Cons.prems(2) by simp
  note a = apply_spring_accel[OF m(1) Cons.prems(2)]
  note ih = Cons.IH[OF m(2) k]
  have pull: "spring_pull c sp' mid k = spring_pull c sp' pts k" for c sp'
    by (rule spring_pull_frame[OF f])
  show ?case using ih a f by (simp add: pull)
qed

lemma apply_constraint_motion:
  "apply_constraint c pts = Inr pts' \<Longrightarrow> map motion pts' = map motion pts"
  by (auto simp: apply_constraint_def Let_def point_at_def map_update map_motion_update motion_def
      split: option.splits if_splits)

lemma apply_constraints_motion:
  "apply_constraints cs pts = Inr pts' \<Longrightarrow> map motion pts' = map motion pts"
proof (induction cs arbitrary: pts)
  case Nil
  then show ?case by simp
next
  case (Cons c cs)
  then obtain mid where m: "apply_constraint c pts = Inr mid" "apply_constraints cs mid = Inr pts'"
    by (auto split: sum.splits)
  from Cons.IH[OF m(2)] apply_constraint_motion[OF m(1)] show ?case by simp
qed

lemma integrate_acceleration:
  "ax (integrate_point w h dt q) = ax q \<and> ay (integrate_point w h dt q) = ay q"
  by (simp add: integrate_point_def Let_def)

text \<open>
  The points after the reset, gravity and wind passes, and after the spring pass.
\<close>

lemma pre_integrate_passes:
  assumes "pre_integrate s = Inr pts"
  shows "\<exists>pts2 pts3. length pts2 = length (points s)
     \<and> map frame pts2 = map frame (points s)
     \<and> (\<forall>k < length (points s).
          ax (pts2 ! k) = fst (base_acceleration s (points s ! k))
          \<and> ay (pts2 ! k) = snd (base_acceleration s (points s ! k))
          \<and> (fixed (points s ! k) \<longrightarrow> pts2 ! k = reset_acceleration (points s ! k)))
     \<and> apply_springs (springs s) pts2 = Inr pts3
     \<and> apply_constraints (constraints s) (collisions pts3) = Inr pts"
proof -
  define pts2 where "pts2 =
    (let pts0 = map reset_acceleration (points s);
         pts1 = (if gravity s > 0 then map (apply_gravity (gravity s)) pts0 else pts0)
     in if wind_x s \<noteq> 0 \<or> wind_y s \<noteq> 0 then map (apply_wind (wind_x s) (wind_y s)) pts1
        else pts1)"
  have len: "length pts2 = length (points s)"
    by (simp add: pts2_def Let_def)
  have fr: "map frame pts2 = map frame (points s)"
    by (simp add: pts2_def Let_def reset_acceleration_def apply_gravity_def apply_wind_def
        comp_def frame_def)
  have acc: "\<forall>k < length (points s).
          ax (pts2 ! k) = fst (base_acceleration s (points s ! k))
          \<and> ay (pts2 ! k) = snd (base_acceleration s (points s ! k))
          \<and> (fixed (points s ! k) \<longrightarrow> pts2 ! k = reset_acceleration (points s ! k))"
    by (simp add: pts2_def Let_def reset_acceleration_def apply_gravity_def apply_wind_def
        base_acceleration_def)
  from assms obtain pts3 where
    s3: "apply_springs (springs s) pts2 = Inr pts3" and
    c3: "apply_constraints (constraints s) (collisions pts3) = Inr pts"
    by (auto simp: pre_integrate_def pts2_def Let_def split: sum.splits if_splits)
  show ?thesis
    by (rule exI[of _ pts2], rule exI[of _ pts3]) (intro conjI len fr acc s3 c3)
qed

lemma pre_integrate_acceleration:
  assumes "pre_integrate s = Inr pts" "k < length (points s)"
  shows "ax (pts ! k) = fst (base_acceleration s (points s ! k))
           + sum_list (map (\<lambda>sp. fst (spring_pull 0.05 sp (points s) k)) (springs s))
       \<and> ay (pts ! k) = snd (base_acceleration s (points s ! k))
           + sum_list (map (\<lambda>sp. snd (spring_pull 0.05 sp (points s) k)) (springs s))"
proof -
  from pre_integrate_passes[OF assms(1)] obtain pts2 pts3 where
    len: "length pts2 = length (points s)" and
    fr: "map frame pts2 = map frame (points s)" and
    acc: "\<forall>k < length (points s).
          ax (pts2 ! k) = fst (base_acceleration s (points s ! k))
          \<and> ay (pts2 ! k) = snd (base_acceleration s (points s ! k))
          \<and> (fixed (points s ! k) \<longrightarrow> pts2 ! k = reset_acceleration (points s ! k))" and
    s3: "apply_springs (springs s) pts2 = Inr pts3" and
    c3: "apply_constraints (constraints s) (collisions pts3) = Inr pts"
    by blast
  have k2: "k < length pts2" using len assms(2) by simp
  note sa = apply_springs_accel[OF s3 k2]
  have pull: "spring_pull c sp pts2 k = spring_pull c sp (points s) k" for c sp
    by (rule spring_pull_frame[OF fr])
  have l3: "length pts3 = length pts2" using apply_springs_shape[OF s3] by simp
  have lc: "length (collisions pts3) = length pts3" using collisions_shape[of pts3] by simp
  have lp: "length pts = length (collisions pts3)" using apply_constraints_shape[OF c3] by simp
  have "map motion pts = map motion pts3"
    using apply_constraints_motion[OF c3] collisions_motion[of pts3] by simp
  then have "map motion pts ! k = map motion pts3 ! k" by simp
  then have "motion (pts ! k) = motion (pts3 ! k)"
    using k2 l3 lc lp by simp
  then have m: "ax (pts ! k) = ax (pts3 ! k)" "ay (pts ! k) = ay (pts3 ! k)"
    by (simp_all add: motion_def)
  show ?thesis
    using sa acc assms(2) by (simp add: m pull)
qed

lemma update_acceleration:
  assumes "update dt s = Inr s'" "k < length (points s)"
  shows "ax (points s' ! k) = fst (base_acceleration s (points s ! k))
           + sum_list (map (\<lambda>sp. fst (spring_pull 0.05 sp (points s) k)) (springs s))
       \<and> ay (points s' ! k) = snd (base_acceleration s (points s ! k))
           + sum_list (map (\<lambda>sp. snd (spring_pull 0.05 sp (points s) k)) (springs s))"
proof -
  from assms(1) obtain pts where
    pre: "pre_integrate s = Inr pts" and
    s': "points s' = map (integrate_point (canvasWidth s) (canvasHeight s) dt) pts"
    by (auto simp: update_def split: sum.splits)
  have len: "length pts = length (points s)" using pre_integrate_shape[OF pre] by simp
  have r: "points s' ! k = integrate_point (canvasWidth s) (canvasHeight s) dt (pts ! k)"
    using s' assms(2) len by simp
  show ?thesis
    using pre_integrate_acceleration[OF pre assms(2)] by (simp add: r integrate_acceleration)
qed

subsection \<open>Fixed points\<close>

lemma list_update2_kept:
  assumes "k < length xs" and "k = i \<Longrightarrow> a = xs ! k" and "k = j \<Longrightarrow> b = xs ! k"
  shows "xs[i := a, j := b] ! k = xs ! k"
proof (cases "k = j")
  case True
  then show ?thesis using assms by simp
next
  case False
  then show ?thesis using assms by (cases "k = i") simp_all
qed

lemma apply_spring_fixed:
  assumes "apply_spring sp pts = Inr pts'" "k < length pts" "fixed (pts ! k)"
  shows "pts' ! k = pts ! k"
proof -
  from assms(1) obtain p1 p2 where
    p1: "point_at pts (point1 sp) = Some p1" and p2: "point_at pts (point2 sp) = Some p2"
    by (auto simp: apply_spring_def split: option.splits)
  note i = point_at_Some[OF p1] and j = point_at_Some[OF p2]
  note r = apply_spring_result[OF p1 p2]
  show ?thesis
  proof (cases "separation p1 p2 > 0")
    case False
    then have "separation p1 p2 = 0" using separation_nonneg[of p1 p2] by simp
    with r assms(1) show ?thesis by simp
  next
    case True
    from r True assms(1) have
      r1: "fixed p1 \<Longrightarrow> pts' ! nat (point1 sp) = p1" and
      r2: "fixed p2 \<Longrightarrow> pts' ! nat (point2 sp) = p2" and
      r3: "\<forall>k < length pts. k \<noteq> nat (point1 sp) \<and> k \<noteq> nat (point2 sp)
                  \<longrightarrow> pts' ! k = pts ! k"
      by auto
    consider (a) "k = nat (point1 sp)" | (b) "k = nat (point2 sp)"
      | (c) "k \<noteq> nat (point1 sp)" "k \<noteq> nat (point2 sp)" by blast
    then show ?thesis
    proof cases
      case a
      then show ?thesis using r1 i assms(3) by simp
    next
      case b
      then show ?thesis using r2 j assms(3) by simp
    next
      case c
      then show ?thesis using r3 assms(2) by simp
    qed
  qed
qed

lemma apply_springs_fixed:
  assumes "apply_springs sps pts = Inr pts'" "k < length pts" "fixed (pts ! k)"
  shows "pts' ! k = pts ! k"
  using assms
proof (induction sps arbitrary: pts)
  case Nil
  then show ?case by simp
next
  case (Cons sp sps)
  then obtain mid where m: "apply_spring sp pts = Inr mid" "apply_springs sps mid = Inr pts'"
    by (auto split: sum.splits)
  have k: "k < length mid" using apply_spring_shape[OF m(1)] Cons.prems(2) by simp
  have e: "mid ! k = pts ! k" by (rule apply_spring_fixed[OF m(1) Cons.prems(2,3)])
  have f: "fixed (mid ! k)" using e Cons.prems(3) by simp
  from Cons.IH[OF m(2) k f] e show ?case by simp
qed

lemma collide_pair_fixed:
  assumes "k < length pts" "fixed (pts ! k)"
  shows "collide_pair i j pts ! k = pts ! k"
proof (cases "0 < separation (pts ! i) (pts ! j) \<and> separation (pts ! i) (pts ! j) < 10")
  case True
  then have "collide_pair i j pts =
     pts[i := push_first (pts ! i) (pts ! j), j := push_second (pts ! i) (pts ! j)]"
    by (simp add: collide_pair_result)
  moreover have "k = i \<Longrightarrow> push_first (pts ! i) (pts ! j) = pts ! k"
    using assms(2) by (simp add: push_first_def)
  moreover have "k = j \<Longrightarrow> push_second (pts ! i) (pts ! j) = pts ! k"
    using assms(2) by (simp add: push_second_def)
  ultimately show ?thesis by (simp only: list_update2_kept[OF assms(1)])
next
  case False
  then have "separation (pts ! i) (pts ! j) = 0 \<or> 10 \<le> separation (pts ! i) (pts ! j)"
    using separation_nonneg[of "pts ! i" "pts ! j"] by auto
  then show ?thesis by (simp add: collide_pair_skip)
qed

lemma collisions_fixed:
  assumes "k < length pts" "fixed (pts ! k)"
  shows "collisions pts ! k = pts ! k"
proof -
  define P where "P t \<longleftrightarrow> length t = length pts \<and> t ! k = pts ! k" for t
  have step: "P (collide_pair i j t)" if "P t" for i j t
    using that assms collide_pair_shape[of i j t] collide_pair_fixed[of k t i j]
    by (simp add: P_def)
  have "P (collisions pts)"
    unfolding collisions_def
    by (rule fold_preserves, simp add: P_def, rule fold_preserves, assumption, rule step)
  then show ?thesis by (simp add: P_def)
qed

lemma apply_constraint_result:
  assumes "ctype c = Distance" and "length (cpoints c) = 2"
    and p1: "point_at pts (cpoints c ! 0) = Some p1"
    and p2: "point_at pts (cpoints c ! Suc 0) = Some p2"
  shows "(separation p1 p2 = 0 \<longrightarrow> apply_constraint c pts = Inr pts)
    \<and> (separation p1 p2 > 0 \<longrightarrow>
         (\<exists>pts'. apply_constraint c pts = Inr pts' \<and> length pts' = length pts
            \<and> pts' ! nat (cpoints c ! 0) =
                (if fixed p1 then p1
                 else p1\<lparr>p_x := p_x p1
                          - (p_x p2 - p_x p1) / separation p1 p2
                            * ((targetValue c - separation p1 p2) * strength c) * 0.5,
                        p_y := p_y p1
                          - (p_y p2 - p_y p1) / separation p1 p2
                            * ((targetValue c - separation p1 p2) * strength c) * 0.5\<rparr>)
            \<and> pts' ! nat (cpoints c ! Suc 0) =
                (if fixed p2 then p2
                 else p2\<lparr>p_x := p_x p2
                          + (p_x p2 - p_x p1) / separation p1 p2
                            * ((targetValue c - separation p1 p2) * strength c) * 0.5,
                        p_y := p_y p2
                          + (p_y p2 - p_y p1) / separation p1 p2
                            * ((targetValue c - separation p1 p2) * strength c) * 0.5\<rparr>)
            \<and> (\<forall>k < length pts. k \<noteq> nat (cpoints c ! 0) \<and> k \<noteq> nat (cpoints c ! Suc 0)
                  \<longrightarrow> pts' ! k = pts ! k)))"
proof -
  note i = point_at_Some[OF p1] and j = point_at_Some[OF p2]
  have zero: "apply_constraint c pts = Inr pts" if "separation p1 p2 = 0"
    using that p1 p2 assms(1,2) by (simp add: apply_constraint_def Let_def separation_def)
  have pos: ?thesis if d: "separation p1 p2 > 0"
  proof -
    have ne: "nat (cpoints c ! 0) \<noteq> nat (cpoints c ! Suc 0)"
    proof
      assume "nat (cpoints c ! 0) = nat (cpoints c ! Suc 0)"
      then have "p1 = p2" using i j by simp
      then show False using d by (simp add: separation_same)
    qed
    have d': "0 < sqrt ((p_x p2 - p_x p1) * (p_x p2 - p_x p1) + (p_y p2 - p_y p1) * (p_y p2 - p_y p1))"
      using d by (simp add: separation_def)
    show ?thesis
      using d p1 p2 i j ne d' assms(1,2)
      by (simp add: apply_constraint_def Let_def separation_def nth_list_update
          del: real_sqrt_gt_0_iff)
  qed
  show ?thesis
    using zero pos separation_nonneg[of p1 p2] by (cases "separation p1 p2 = 0") auto
qed

lemma apply_constraint_fixed:
  assumes "apply_constraint c pts = Inr pts'" "k < length pts" "fixed (pts ! k)"
  shows "pts' ! k = pts ! k"
proof (cases "ctype c = Distance \<and> length (cpoints c) = 2")
  case False
  then show ?thesis using assms(1) by (auto simp: apply_constraint_def)
next
  case True
  with assms(1) obtain p1 p2 where
    p1: "point_at pts (cpoints c ! 0) = Some p1" and
    p2: "point_at pts (cpoints c ! Suc 0) = Some p2"
    by (auto simp: apply_constraint_def split: option.splits)
  note i = point_at_Some[OF p1] and j = point_at_Some[OF p2]
  from True have t: "ctype c = Distance" "length (cpoints c) = 2" by simp_all
  note r = apply_constraint_result[OF t p1 p2]
  show ?thesis
  proof (cases "separation p1 p2 > 0")
    case False
    then have "separation p1 p2 = 0" using separation_nonneg[of p1 p2] by simp
    with r assms(1) show ?thesis by simp
  next
    case True
    from r True assms(1) have
      r1: "fixed p1 \<Longrightarrow> pts' ! nat (cpoints c ! 0) = p1" and
      r2: "fixed p2 \<Longrightarrow> pts' ! nat (cpoints c ! Suc 0) = p2" and
      r3: "\<forall>k < length pts. k \<noteq> nat (cpoints c ! 0) \<and> k \<noteq> nat (cpoints c ! Suc 0)
                  \<longrightarrow> pts' ! k = pts ! k"
      by auto
    consider (a) "k = nat (cpoints c ! 0)" | (b) "k = nat (cpoints c ! Suc 0)"
      | (c) "k \<noteq> nat (cpoints c ! 0)" "k \<noteq> nat (cpoints c ! Suc 0)" by blast
    then show ?thesis
    proof cases
      case a
      then show ?thesis using r1 i assms(3) by simp
    next
      case b
      then show ?thesis using r2 j assms(3) by simp
    next
      case c
      then show ?thesis using r3 assms(2) by simp
    qed
  qed
qed

lemma apply_constraints_fixed:
  assumes "apply_constraints cs pts = Inr pts'" "k < length pts" "fixed (pts ! k)"
  shows "pts' ! k = pts ! k"
  using assms
proof (induction cs arbitrary: pts)
  case Nil
  then show ?case by simp
next
  case (Cons c cs)
  then obtain mid where m: "apply_constraint c pts = Inr mid" "apply_constraints cs mid = Inr pts'"
    by (auto split: sum.splits)
  have k: "k < length mid" using apply_constraint_shape[OF m(1)] Cons.prems(2) by simp
  have e: "mid ! k = pts ! k" by (rule apply_constraint_fixed[OF m(1) Cons.prems(2,3)])
  have f: "fixed (mid ! k)" using e Cons.prems(3) by simp
  from Cons.IH[OF m(2) k f] e show ?case by simp
qed

lemma pre_integrate_fixed:
  assumes "pre_integrate s = Inr pts" "k < length (points s)" "fixed (points s ! k)"
  shows "pts ! k = reset_acceleration (points s ! k)"
proof -
  from pre_integrate_passes[OF assms(1)] obtain pts2 pts3 where
    len: "length pts2 = length (points s)" and
    acc: "\<forall>k < length (points s).
          ax (pts2 ! k) = fst (base_acceleration s (points s ! k))
          \<and> ay (pts2 ! k) = snd (base_acceleration s (points s ! k))
          \<and> (fixed (points s ! k) \<longrightarrow> pts2 ! k = reset_acceleration (points s ! k))" and
    s3: "apply_springs (springs s) pts2 = Inr pts3" and
    c3: "apply_constraints (constraints s) (collisions pts3) = Inr pts"
    by blast
  have e2: "pts2 ! k = reset_acceleration (points s ! k)" using acc assms(2,3) by simp
  have f2: "fixed (pts2 ! k)" using e2 assms(3) by (simp add: reset_acceleration_def)
  have k2: "k < length pts2" using len assms(2) by simp
  have e3: "pts3 ! k = pts2 ! k" by (rule apply_springs_fixed[OF s3 k2 f2])
  have k3: "k < length pts3" using apply_springs_shape[OF s3] k2 by simp
  have f3: "fixed (pts3 ! k)" using e3 f2 by simp
  have e4: "collisions pts3 ! k = pts3 ! k" by (rule collisions_fixed[OF k3 f3])
  have k4: "k < length (collisions pts3)" using collisions_shape[of pts3] k3 by simp
  have f4: "fixed (collisions pts3 ! k)" using e4 f3 by simp
  have e5: "pts ! k = collisions pts3 ! k" by (rule apply_constraints_fixed[OF c3 k4 f4])
  show ?thesis by (simp only: e5 e4 e3 e2)
qed

lemma update_fixed:
  assumes "update dt s = Inr s'" "k < length (points s)" "fixed (points s ! k)"
  shows "points s' ! k = reset_acceleration (points s ! k)"
proof -
  from assms(1) obtain pts where
    pre: "pre_integrate s = Inr pts" and
    s': "points s' = map (integrate_point (canvasWidth s) (canvasHeight s) dt) pts"
    by (auto simp: update_def split: sum.splits)
  have len: "length pts = length (points s)" using pre_integrate_shape[OF pre] by simp
  have r: "points s' ! k = integrate_point (canvasWidth s) (canvasHeight s) dt (pts ! k)"
    using s' assms(2) len by simp
  have e: "pts ! k = reset_acceleration (points s ! k)"
    by (rule pre_integrate_fixed[OF pre assms(2,3)])
  show ?thesis using assms(3) by (simp add: r e integrate_point_def reset_acceleration_def)
qed

subsection \<open>The collision pass\<close>

lemma fold_concat_lists: "fold f (concat xss) = fold (fold f) xss"
  by (induction xss) simp_all

lemma collisions_pairs:
  "collisions pts = fold (\<lambda>(i, j). collide_pair i j) (index_pairs (length pts)) pts"
  by (simp add: index_pairs_def collisions_def fold_concat_lists fold_map comp_def)

lemma index_pairs_set: "set (index_pairs n) = {(i, j). i < j \<and> j < n}"
proof -
  have "(a, b) \<in> set (index_pairs n)" if "a < b" "b < n" for a b
    using that by (simp add: index_pairs_def) (rule bexI[of _ a], simp_all)
  moreover have "a < b \<and> b < n" if "(a, b) \<in> set (index_pairs n)" for a b
    using that by (auto simp: index_pairs_def)
  ultimately show ?thesis by auto
qed

lemma sorted_wrt_concat_map:
  assumes "\<And>x. x \<in> set xs \<Longrightarrow> sorted_wrt P (f x)"
    and "sorted_wrt (\<lambda>x y. \<forall>a \<in> set (f x). \<forall>b \<in> set (f y). P a b) xs"
  shows "sorted_wrt P (concat (map f xs))"
  using assms by (induction xs) (auto simp: sorted_wrt_append)

lemma index_pairs_sorted: "sorted_wrt pair_before (index_pairs n)"
  unfolding index_pairs_def
proof (rule sorted_wrt_concat_map)
  fix i
  show "sorted_wrt pair_before (map (\<lambda>j. (i, j)) [i + 1 ..< n])"
    by (simp add: sorted_wrt_map pair_before_def)
next
  have "sorted_wrt (<) [0 ..< n]" by simp
  then show "sorted_wrt (\<lambda>x y. \<forall>a \<in> set (map (\<lambda>j. (x, j)) [x + 1 ..< n]).
      \<forall>b \<in> set (map (\<lambda>j. (y, j)) [y + 1 ..< n]). pair_before a b) [0 ..< n]"
    by (rule sorted_wrt_mono_rel[rotated]) (auto simp: pair_before_def)
qed

lemma sorted_wrt_strict_distinct:
  assumes "\<And>x. \<not> P x x" and "sorted_wrt P xs"
  shows "distinct xs"
  using assms(2) by (induction xs) (auto simp: assms(1))

lemma index_pairs_distinct: "distinct (index_pairs n)"
  by (rule sorted_wrt_strict_distinct[OF _ index_pairs_sorted]) (simp add: pair_before_def)

lemma index_pairs_3: "index_pairs 3 = [(0, 1), (0, 2), (1, 2)]"
  by (simp add: index_pairs_def upt_rec)

lemma pre_integrate_collision_pass:
  assumes "pre_integrate s = Inr out"
  shows "\<exists>pts3. map frame pts3 = map frame (points s)
     \<and> apply_constraints (constraints s) (collisions pts3) = Inr out"
proof -
  from pre_integrate_passes[OF assms] obtain pts2 pts3 where
    len: "length pts2 = length (points s)" and
    fr: "map frame pts2 = map frame (points s)" and
    s3: "apply_springs (springs s) pts2 = Inr pts3" and
    c3: "apply_constraints (constraints s) (collisions pts3) = Inr out"
    by blast
  have "map frame pts3 = map frame pts2"
  proof (cases "points s")
    case Nil
    then have "pts2 = []" using len by simp
    then have "length pts3 = 0" using apply_springs_shape[OF s3] by simp
    then show ?thesis using \<open>pts2 = []\<close> by simp
  next
    case (Cons p ps)
    then have "0 < length pts2" using len by simp
    from apply_springs_accel[OF s3 this] show ?thesis by simp
  qed
  then show ?thesis using fr c3 by auto
qed

lemma collide_pair_effect:
  assumes "i < j" and "j < length pts"
    and "0 < separation (pts ! i) (pts ! j)" and "separation (pts ! i) (pts ! j) < 10"
  shows "length (collide_pair i j pts) = length pts
    \<and> collide_pair i j pts ! i = push_first (pts ! i) (pts ! j)
    \<and> collide_pair i j pts ! j = push_second (pts ! i) (pts ! j)
    \<and> (\<forall>k < length pts. k \<noteq> i \<and> k \<noteq> j \<longrightarrow> collide_pair i j pts ! k = pts ! k)
    \<and> separation (collide_pair i j pts ! i) (collide_pair i j pts ! j) =
        (if fixed (pts ! i) \<and> fixed (pts ! j) then separation (pts ! i) (pts ! j)
         else if fixed (pts ! i) \<or> fixed (pts ! j) then (10 + separation (pts ! i) (pts ! j)) / 2
         else 10)"
proof -
  define p1 where "p1 = pts ! i"
  define p2 where "p2 = pts ! j"
  define d where "d = separation p1 p2"
  define q1 where "q1 = push_first p1 p2"
  define q2 where "q2 = push_second p1 p2"
  have d: "0 < d" "d < 10" using assms(3,4) by (simp_all add: d_def p1_def p2_def)
  have res: "collide_pair i j pts = pts[i := q1, j := q2]"
    using collide_pair_result[OF assms(3,4)] by (simp add: q1_def q2_def p1_def p2_def)
  have ni: "collide_pair i j pts ! i = q1" and nj: "collide_pair i j pts ! j = q2"
    using assms(1,2) by (simp_all add: res)
  have others: "\<forall>k < length pts. k \<noteq> i \<and> k \<noteq> j \<longrightarrow> collide_pair i j pts ! k = pts ! k"
    by (simp add: res)
  have sep: "separation q1 q2 =
      (if fixed p1 \<and> fixed p2 then d else if fixed p1 \<or> fixed p2 then (10 + d) / 2 else 10)"
  proof -
    consider (both) "fixed p1" "fixed p2" | (first) "fixed p1" "\<not> fixed p2"
      | (second) "\<not> fixed p1" "fixed p2" | (none) "\<not> fixed p1" "\<not> fixed p2" by blast
    then show ?thesis
    proof cases
      case both
      then show ?thesis by (simp add: q1_def q2_def push_first_def push_second_def d_def)
    next
      case first
      have "separation q1 q2 = ((10 + d) / 2 / d) * separation p1 p2"
        using first d
        by (intro separation_moved)
           (simp_all add: q1_def q2_def push_first_def push_second_def d_def[symmetric] field_simps)
      then show ?thesis using first d by (simp add: d_def[symmetric])
    next
      case second
      have "separation q1 q2 = ((10 + d) / 2 / d) * separation p1 p2"
        using second d
        by (intro separation_moved)
           (simp_all add: q1_def q2_def push_first_def push_second_def d_def[symmetric] field_simps)
      then show ?thesis using second d by (simp add: d_def[symmetric])
    next
      case none
      have "separation q1 q2 = (10 / d) * separation p1 p2"
        using none d
        by (intro separation_moved)
           (simp_all add: q1_def q2_def push_first_def push_second_def d_def[symmetric] field_simps)
      then show ?thesis using none d by (simp add: d_def[symmetric])
    qed
  qed
  show ?thesis
    using ni nj others sep collide_pair_shape[of i j pts]
    by (simp add: q1_def q2_def p1_def p2_def d_def)
qed

subsection \<open>Steps without forces, exactly\<close>

lemma power_step: "(c::real) ^ n * (c * a) * d = c ^ Suc n * a * d"
  by simp

lemma forceless_step_exact:
  assumes "forceless s" "i < length (points s)" "\<not> fixed (points s ! i)"
    and "10 \<le> canvasWidth s" "10 \<le> canvasHeight s"
  shows "\<exists>s'. update dt s = Inr s'
     \<and> (p_x (points s' ! i), vx (points s' ! i))
         = bounced (canvasWidth s)
             (p_x (collisions (map reset_acceleration (points s)) ! i)
                + 0.999 * vx (points s ! i) * dt)
             (0.999 * vx (points s ! i))
     \<and> (p_y (points s' ! i), vy (points s' ! i))
         = bounced (canvasHeight s)
             (p_y (collisions (map reset_acceleration (points s)) ! i)
                + 0.999 * vy (points s ! i) * dt)
             (0.999 * vy (points s ! i))"
proof -
  define pts where "pts = collisions (map reset_acceleration (points s))"
  define s' where "s' = s\<lparr>points :=
     map (integrate_point (canvasWidth s) (canvasHeight s) dt) pts\<rparr>"
  have u: "update dt s = Inr s'"
    using forceless_update[OF assms(1)] by (simp add: s'_def pts_def)
  have len: "length pts = length (points s)"
    using collisions_shape[of "map reset_acceleration (points s)"] by (simp add: pts_def)
  have "map fixed pts = map fixed (map reset_acceleration (points s))"
    using collisions_shape[of "map reset_acceleration (points s)"] by (simp add: pts_def)
  then have "map fixed pts ! i = map fixed (map reset_acceleration (points s)) ! i" by simp
  then have "fixed (pts ! i) = fixed (reset_acceleration (points s ! i))"
    using assms(2) len by simp
  then have free: "\<not> fixed (pts ! i)" using assms(3) by (simp add: reset_acceleration_def)
  have "map motion pts = map motion (map reset_acceleration (points s))"
    by (simp add: pts_def collisions_motion)
  then have "map motion pts ! i = map motion (map reset_acceleration (points s)) ! i" by simp
  then have "motion (pts ! i) = motion (reset_acceleration (points s ! i))"
    using assms(2) len by simp
  then have m: "vx (pts ! i) = vx (points s ! i)" "vy (pts ! i) = vy (points s ! i)"
    "ax (pts ! i) = 0" "ay (pts ! i) = 0"
    by (simp_all add: motion_def reset_acceleration_def)
  have mv: "moved_vx dt (pts ! i) = 0.999 * vx (points s ! i)"
    "moved_vy dt (pts ! i) = 0.999 * vy (points s ! i)"
    "moved_x dt (pts ! i) = p_x (pts ! i) + 0.999 * vx (points s ! i) * dt"
    "moved_y dt (pts ! i) = p_y (pts ! i) + 0.999 * vy (points s ! i) * dt"
    by (simp_all add: moved_vx_def moved_vy_def moved_x_def moved_y_def m)
  have pi: "points s' ! i = integrate_point (canvasWidth s) (canvasHeight s) dt (pts ! i)"
    using assms(2) len by (simp add: s'_def)
  note ip = integrate_point_free[OF free assms(4,5), of dt]
  have ex: "(p_x (points s' ! i), vx (points s' ! i))
         = bounced (canvasWidth s) (p_x (pts ! i) + 0.999 * vx (points s ! i) * dt)
             (0.999 * vx (points s ! i))"
    using ip(1) by (simp only: pi mv)
  have ey: "(p_y (points s' ! i), vy (points s' ! i))
         = bounced (canvasHeight s) (p_y (pts ! i) + 0.999 * vy (points s ! i) * dt)
             (0.999 * vy (points s ! i))"
    using ip(2) by (simp only: pi mv)
  show ?thesis
    by (rule exI[of _ s']) (intro conjI u ex[unfolded pts_def] ey[unfolded pts_def])
qed

lemma calm_step:
  assumes "calm s" "i < length (points s)" "\<not> fixed (points s ! i)"
    and "10 \<le> canvasWidth s" "10 \<le> canvasHeight s"
  shows "\<exists>s'. update dt s = Inr s'
     \<and> canvasWidth s' = canvasWidth s \<and> canvasHeight s' = canvasHeight s
     \<and> length (points s') = length (points s) \<and> \<not> fixed (points s' ! i)
     \<and> (p_x (points s' ! i), vx (points s' ! i))
         = bounced (canvasWidth s) (p_x (points s ! i) + 0.999 * vx (points s ! i) * dt)
             (0.999 * vx (points s ! i))
     \<and> (p_y (points s' ! i), vy (points s' ! i))
         = bounced (canvasHeight s) (p_y (points s ! i) + 0.999 * vy (points s ! i) * dt)
             (0.999 * vy (points s ! i))
     \<and> 5 \<le> p_x (points s' ! i) \<and> p_x (points s' ! i) \<le> canvasWidth s - 5
     \<and> 5 \<le> p_y (points s' ! i) \<and> p_y (points s' ! i) \<le> canvasHeight s - 5
     \<and> \<bar>vx (points s' ! i)\<bar> \<le> 0.999 * \<bar>vx (points s ! i)\<bar>
     \<and> \<bar>vy (points s' ! i)\<bar> \<le> 0.999 * \<bar>vy (points s ! i)\<bar>
     \<and> (5 \<le> p_x (points s ! i) \<and> p_x (points s ! i) \<le> canvasWidth s - 5 \<longrightarrow>
          \<bar>p_x (points s' ! i) - p_x (points s ! i)\<bar>
            \<le> 0.999 * \<bar>vx (points s ! i)\<bar> * \<bar>dt\<bar>)
     \<and> (5 \<le> p_y (points s ! i) \<and> p_y (points s ! i) \<le> canvasHeight s - 5 \<longrightarrow>
          \<bar>p_y (points s' ! i) - p_y (points s ! i)\<bar>
            \<le> 0.999 * \<bar>vy (points s ! i)\<bar> * \<bar>dt\<bar>)"
proof -
  define p where "p = points s ! i"
  define W where "W = canvasWidth s"
  define H where "H = canvasHeight s"
  define s' where "s' = s\<lparr>points :=
     map (\<lambda>p. integrate_point (canvasWidth s) (canvasHeight s) dt (reset_acceleration p))
       (points s)\<rparr>"
  define q where "q = points s' ! i"
  have u: "update dt s = Inr s'" using calm_update[OF assms(1)] by (simp add: s'_def)
  have cw: "canvasWidth s' = canvasWidth s" and ch: "canvasHeight s' = canvasHeight s"
    and len: "length (points s') = length (points s)"
    by (simp_all add: s'_def)
  have pi: "q = integrate_point W H dt (reset_acceleration p)"
    using assms(2) by (simp add: s'_def p_def q_def W_def H_def)
  have free: "\<not> fixed (reset_acceleration p)"
    using assms(3) by (simp add: reset_acceleration_def p_def)
  have fr': "\<not> fixed q" using free by (simp add: pi integrate_fixed_flag)
  have w: "10 \<le> W" and h: "10 \<le> H" using assms(4,5) by (simp_all add: W_def H_def)
  note ip = integrate_point_free[OF free w h, of dt]
  have ex: "(p_x q, vx q) = bounced W (p_x p + 0.999 * vx p * dt) (0.999 * vx p)"
    using ip(1) by (simp only: pi moved_reset)
  have ey: "(p_y q, vy q) = bounced H (p_y p + 0.999 * vy p * dt) (0.999 * vy p)"
    using ip(2) by (simp only: pi moved_reset)
  have fx: "p_x q = fst (bounced W (p_x p + 0.999 * vx p * dt) (0.999 * vx p))"
    using arg_cong[OF ex, of fst] by simp
  have fy: "p_y q = fst (bounced H (p_y p + 0.999 * vy p * dt) (0.999 * vy p))"
    using arg_cong[OF ey, of fst] by simp
  have rx: "5 \<le> p_x q \<and> p_x q \<le> W - 5"
    using bounced_in_range[OF w] by (simp only: fx)
  have ry: "5 \<le> p_y q \<and> p_y q \<le> H - 5"
    using bounced_in_range[OF h] by (simp only: fy)
  have z: "ax (reset_acceleration p) = 0" "ay (reset_acceleration p) = 0"
    "vx (reset_acceleration p) = vx p" "vy (reset_acceleration p) = vy p"
    by (simp_all add: reset_acceleration_def)
  have bx: "\<bar>vx q\<bar> \<le> 0.999 * \<bar>vx p\<bar>"
    using integrate_velocity(1)[OF free z(1,2), of W H dt] by (simp only: pi z)
  have bv: "\<bar>vy q\<bar> \<le> 0.999 * \<bar>vy p\<bar>"
    using integrate_velocity(2)[OF free z(1,2), of W H dt] by (simp only: pi z)
  have dx: "\<bar>p_x q - p_x p\<bar> \<le> 0.999 * \<bar>vx p\<bar> * \<bar>dt\<bar>"
    if "5 \<le> p_x p \<and> p_x p \<le> W - 5"
  proof -
    define c where "c = p_x p + 0.999 * vx p * dt"
    from that have t: "5 \<le> p_x p" "p_x p \<le> W - 5" by simp_all
    have "\<bar>p_x q - p_x p\<bar> \<le> \<bar>c - p_x p\<bar>"
      using bounced_displacement[OF t, of c "0.999 * vx p"] by (simp only: fx c_def)
    also have "c - p_x p = 0.999 * vx p * dt" by (simp add: c_def)
    also have "\<bar>0.999 * vx p * dt\<bar> = 0.999 * \<bar>vx p\<bar> * \<bar>dt\<bar>"
      by (simp add: abs_mult)
    finally show ?thesis .
  qed
  have dy: "\<bar>p_y q - p_y p\<bar> \<le> 0.999 * \<bar>vy p\<bar> * \<bar>dt\<bar>"
    if "5 \<le> p_y p \<and> p_y p \<le> H - 5"
  proof -
    define c where "c = p_y p + 0.999 * vy p * dt"
    from that have t: "5 \<le> p_y p" "p_y p \<le> H - 5" by simp_all
    have "\<bar>p_y q - p_y p\<bar> \<le> \<bar>c - p_y p\<bar>"
      using bounced_displacement[OF t, of c "0.999 * vy p"] by (simp only: fy c_def)
    also have "c - p_y p = 0.999 * vy p * dt" by (simp add: c_def)
    also have "\<bar>0.999 * vy p * dt\<bar> = 0.999 * \<bar>vy p\<bar> * \<bar>dt\<bar>"
      by (simp add: abs_mult)
    finally show ?thesis .
  qed
  have dx': "5 \<le> p_x p \<and> p_x p \<le> W - 5 \<longrightarrow> \<bar>p_x q - p_x p\<bar> \<le> 0.999 * \<bar>vx p\<bar> * \<bar>dt\<bar>"
    using dx by blast
  have dy': "5 \<le> p_y p \<and> p_y p \<le> H - 5 \<longrightarrow> \<bar>p_y q - p_y p\<bar> \<le> 0.999 * \<bar>vy p\<bar> * \<bar>dt\<bar>"
    using dy by blast
  note un = p_def q_def W_def H_def
  show ?thesis
    by (rule exI[of _ s'])
       (intro conjI u cw ch len fr'[unfolded un] ex[unfolded un] ey[unfolded un]
          conjunct1[OF rx[unfolded un]] conjunct2[OF rx[unfolded un]]
          conjunct1[OF ry[unfolded un]] conjunct2[OF ry[unfolded un]]
          bx[unfolded un] bv[unfolded un] dx'[unfolded un] dy'[unfolded un])
qed

lemma calm_steps_settle:
  assumes "calm_steps (Suc n) dt s" "i < length (points s)" "\<not> fixed (points s ! i)"
    and "10 \<le> canvasWidth s" "10 \<le> canvasHeight s"
    and "5 \<le> p_x (points s ! i)" "p_x (points s ! i) \<le> canvasWidth s - 5"
    and "5 \<le> p_y (points s ! i)" "p_y (points s ! i) \<le> canvasHeight s - 5"
  shows "\<exists>t t'. updates n dt s = Inr t \<and> update dt t = Inr t'
     \<and> \<bar>p_x (points t' ! i) - p_x (points t ! i)\<bar>
         \<le> 0.999 ^ Suc n * \<bar>vx (points s ! i)\<bar> * \<bar>dt\<bar>
     \<and> \<bar>p_y (points t' ! i) - p_y (points t ! i)\<bar>
         \<le> 0.999 ^ Suc n * \<bar>vy (points s ! i)\<bar> * \<bar>dt\<bar>"
  using assms
proof (induction n arbitrary: s)
  case 0
  from 0(1) have c: "calm s" by simp
  from calm_step[OF c 0(2,3,4,5), of dt] 0(6,7,8,9) obtain s' where
    "update dt s = Inr s'"
    "\<bar>p_x (points s' ! i) - p_x (points s ! i)\<bar> \<le> 0.999 * \<bar>vx (points s ! i)\<bar> * \<bar>dt\<bar>"
    "\<bar>p_y (points s' ! i) - p_y (points s ! i)\<bar> \<le> 0.999 * \<bar>vy (points s ! i)\<bar> * \<bar>dt\<bar>"
    by blast
  then show ?case by simp
next
  case (Suc n)
  from Suc.prems(1) have c: "calm s" by simp
  from calm_step[OF c Suc.prems(2,3,4,5), of dt] obtain s' where
    u: "update dt s = Inr s'" and
    cw: "canvasWidth s' = canvasWidth s" and ch: "canvasHeight s' = canvasHeight s" and
    len: "length (points s') = length (points s)" and fr: "\<not> fixed (points s' ! i)" and
    rx: "5 \<le> p_x (points s' ! i)" "p_x (points s' ! i) \<le> canvasWidth s - 5" and
    ry: "5 \<le> p_y (points s' ! i)" "p_y (points s' ! i) \<le> canvasHeight s - 5" and
    bx: "\<bar>vx (points s' ! i)\<bar> \<le> 0.999 * \<bar>vx (points s ! i)\<bar>" and
    bv: "\<bar>vy (points s' ! i)\<bar> \<le> 0.999 * \<bar>vy (points s ! i)\<bar>"
    by blast
  from Suc.prems(1) u have cs: "calm_steps (Suc n) dt s'" by simp
  have i': "i < length (points s')" using len Suc.prems(2) by simp
  from Suc.IH[OF cs i' fr] Suc.prems(4,5) rx ry cw ch obtain t t' where
    t: "updates n dt s' = Inr t" "update dt t = Inr t'" and
    ex: "\<bar>p_x (points t' ! i) - p_x (points t ! i)\<bar>
         \<le> 0.999 ^ Suc n * \<bar>vx (points s' ! i)\<bar> * \<bar>dt\<bar>" and
    ey: "\<bar>p_y (points t' ! i) - p_y (points t ! i)\<bar>
         \<le> 0.999 ^ Suc n * \<bar>vy (points s' ! i)\<bar> * \<bar>dt\<bar>"
    by auto
  have ut: "updates (Suc n) dt s = Inr t" using u t(1) by simp
  have "0.999 ^ Suc n * \<bar>vx (points s' ! i)\<bar> * \<bar>dt\<bar>
      \<le> 0.999 ^ Suc n * (0.999 * \<bar>vx (points s ! i)\<bar>) * \<bar>dt\<bar>"
    by (intro mult_right_mono mult_left_mono bx) simp_all
  with ex have "\<bar>p_x (points t' ! i) - p_x (points t ! i)\<bar>
         \<le> 0.999 ^ Suc n * (0.999 * \<bar>vx (points s ! i)\<bar>) * \<bar>dt\<bar>"
    by (rule order_trans)
  then have fx: "\<bar>p_x (points t' ! i) - p_x (points t ! i)\<bar>
         \<le> 0.999 ^ Suc (Suc n) * \<bar>vx (points s ! i)\<bar> * \<bar>dt\<bar>"
    by (simp only: power_step)
  have "0.999 ^ Suc n * \<bar>vy (points s' ! i)\<bar> * \<bar>dt\<bar>
      \<le> 0.999 ^ Suc n * (0.999 * \<bar>vy (points s ! i)\<bar>) * \<bar>dt\<bar>"
    by (intro mult_right_mono mult_left_mono bv) simp_all
  with ey have "\<bar>p_y (points t' ! i) - p_y (points t ! i)\<bar>
         \<le> 0.999 ^ Suc n * (0.999 * \<bar>vy (points s ! i)\<bar>) * \<bar>dt\<bar>"
    by (rule order_trans)
  then have fy: "\<bar>p_y (points t' ! i) - p_y (points t ! i)\<bar>
         \<le> 0.999 ^ Suc (Suc n) * \<bar>vy (points s ! i)\<bar> * \<bar>dt\<bar>"
    by (simp only: power_step)
  show ?case
    by (rule exI[of _ t], rule exI[of _ t']) (intro conjI ut t(2) fx fy)
qed

lemma lone_point_calm:
  assumes "forceless s" and "length (points s) \<le> 1"
  shows "calm_steps n dt s"
  using assms
proof (induction n arbitrary: s)
  case 0
  show ?case by simp
next
  case (Suc n)
  have c: "calm s" using Suc.prems by (auto simp: calm_def forceless_def)
  define s' where "s' = s\<lparr>points :=
     map (integrate_point (canvasWidth s) (canvasHeight s) dt)
       (collisions (map reset_acceleration (points s)))\<rparr>"
  have u: "update dt s = Inr s'"
    using forceless_update[OF Suc.prems(1)] by (simp add: s'_def)
  have f: "forceless s'" using Suc.prems(1) by (simp add: forceless_def s'_def)
  have l: "length (points s') \<le> 1"
    using Suc.prems(2) collisions_shape[of "map reset_acceleration (points s)"]
    by (simp add: s'_def)
  from Suc.IH[OF f l] c u show ?case by simp
qed

subsection \<open>Index guards\<close>

lemma guarded_operations_skip:
  assumes "index < 0 \<or> int (length (points s)) \<le> index"
  shows "removePoint index s = s" and "applyForceToPoint index fx fy s = s"
  using assms by (auto simp: removePoint_def applyForceToPoint_def)

lemma addSpring_skips:
  assumes "int (length (points s)) \<le> i \<or> int (length (points s)) \<le> j"
  shows "addSpring i j stiff damp s = Inr s"
  using assms by (auto simp: addSpring_def)

lemma addSpring_negative_index_throws:
  "addSpring (- 1) 0 0.1 0.99 (snd (addPoint 0 0 1 False new_simulation)) = Inl TypeError"
  by (simp add: addSpring_def addPoint_def new_simulation_def point_at_def)

subsection \<open>Examples\<close>

lemma wall_engine_update: "update 1 wall_engine = Inr wall_engine_after"
  by (simp add: update_def pre_integrate_def wall_engine_def wall_engine_after_def
      new_simulation_def collisions_def reset_acceleration_def integrate_point_def Let_def)

lemma wall_engine_update2: "update 1 wall_engine_after = Inr wall_engine_later"
  by (simp add: update_def pre_integrate_def wall_engine_later_def wall_engine_after_def
      new_simulation_def collisions_def reset_acceleration_def integrate_point_def Let_def)

lemma wall_engine_calm: "calm wall_engine" "calm wall_engine_after"
  by (simp_all add: calm_def wall_engine_def wall_engine_after_def new_simulation_def)

lemma wall_engine_forceless: "forceless wall_engine"
  by (simp add: forceless_def wall_engine_def new_simulation_def)

lemma two_point_engine_update: "update 1 (two_point_engine d) = Inr (two_point_engine_after d)"
  by (simp add: update_def pre_integrate_def two_point_engine_def two_point_engine_after_def
      new_simulation_def collisions_def collide_pair_def reset_acceleration_def
      apply_spring_def point_at_def integrate_point_def Let_def sqrt_numerals upt_rec)

lemma two_point_engine_pulls:
  "sum_list (map (\<lambda>sp. fst (spring_pull c sp (points (two_point_engine d)) 1))
     (springs (two_point_engine d))) = 0"
  "sum_list (map (\<lambda>sp. snd (spring_pull c sp (points (two_point_engine d)) 1))
     (springs (two_point_engine d))) = - 2 - c"
  by (simp_all add: spring_pull_def two_point_engine_def new_simulation_def point_at_def
      separation_def Let_def sqrt_numerals)

section \<open>The claims on the physics engine\<close>

text \<open>
  C3. The claim: each spring adds to its free endpoints the spring force divided by the
  mass, with opposite signs, and a damping force proportional, with coefficient 0.05, to
  the component of the relative velocity along the spring. The source adds 0.05 times the
  whole relative velocity, axis by axis: for two points on a horizontal line at the rest
  length of their spring, the second moving vertically, the relative velocity has no
  component along the spring and the spring force is zero, yet the spring loop, and so a
  step of the engine, accelerates the points vertically by 0.05 and -0.05.
\<close>

theorem damping_acts_across_spring:
  "velocity_along_spring (sideways_pair ! 0) (sideways_pair ! 1) = 0
   \<and> separation (sideways_pair ! 0) (sideways_pair ! 1) = restLength rest_spring
   \<and> map_sum id (map ay) (apply_spring rest_spring sideways_pair) = Inr [0.05, - 0.05]
   \<and> map_sum id (\<lambda>s'. map ay (points s')) (update 1 sideways_engine) = Inr [0.05, - 0.05]"
  by (simp add: velocity_along_spring_def separation_def sideways_pair_def rest_spring_def
      free_point_def apply_spring_def point_at_def Let_def sqrt_numerals
      sideways_engine_def update_def pre_integrate_def new_simulation_def collisions_def
      collide_pair_def reset_acceleration_def integrate_point_def upt_rec)

text \<open>
  C3, as amended. After every step that returns, in an engine whose points have positive
  masses, the acceleration of each point is the one the gravity and wind passes give it
  (\<open>base_acceleration\<close>) plus the sum, over all springs of the engine, of the spring's
  term \<open>spring_pull 0.05\<close>, computed from the positions and velocities the points have at
  the start of the step: a spring whose endpoints are at a distance \<open>d > 0\<close> adds to its
  first endpoint, unless that is fixed, the force \<open>(d - restLength) * stiffness\<close> along the
  normalized separation vector divided by the endpoint's mass, plus 0.05 times the velocity
  of the second endpoint relative to the first (the whole relative velocity, on each axis,
  not divided by the mass); it adds the opposite of both terms, with the mass of the second
  endpoint, to the second endpoint unless that is fixed; fixed endpoints, all other points
  and springs of length 0 get nothing.
\<close>

theorem spring_acceleration:
  assumes "update deltaTime s = Inr s'" and "k < length (points s)"
    and "\<forall>p \<in> set (points s). 0 < mass p"
  shows "ax (points s' ! k) =
           fst (base_acceleration s (points s ! k))
           + sum_list (map (\<lambda>sp. fst (spring_pull 0.05 sp (points s) k)) (springs s))
       \<and> ay (points s' ! k) =
           snd (base_acceleration s (points s ! k))
           + sum_list (map (\<lambda>sp. snd (spring_pull 0.05 sp (points s) k)) (springs s))"
  by (rule update_acceleration[OF assms(1,2)])

theorem spring_acceleration_witness:
  "update 1 (two_point_engine 0.99) = Inr (two_point_engine_after 0.99)
   \<and> 1 < length (points (two_point_engine 0.99))
   \<and> map mass (points (two_point_engine 0.99)) = [1, 1]
   \<and> ay (points (two_point_engine_after 0.99) ! 1) =
       snd (base_acceleration (two_point_engine 0.99) (points (two_point_engine 0.99) ! 1))
       + sum_list (map (\<lambda>sp. snd (spring_pull 0.05 sp (points (two_point_engine 0.99)) 1))
           (springs (two_point_engine 0.99)))
   \<and> base_acceleration (two_point_engine 0.99) (points (two_point_engine 0.99) ! 1) = (0, 0)
   \<and> sum_list (map (\<lambda>sp. snd (spring_pull 0.05 sp (points (two_point_engine 0.99)) 1))
        (springs (two_point_engine 0.99))) = - 2 - 0.05
   \<and> ay (points (two_point_engine_after 0.99) ! 1) = - 2.05"
proof -
  have l: "1 < length (points (two_point_engine 0.99))"
    and m: "map mass (points (two_point_engine 0.99)) = [1, 1]"
    and m': "\<forall>p \<in> set (points (two_point_engine 0.99)). 0 < mass p"
    and b: "base_acceleration (two_point_engine 0.99) (points (two_point_engine 0.99) ! 1) = (0, 0)"
    by (simp_all add: two_point_engine_def new_simulation_def base_acceleration_def)
  have a: "ay (points (two_point_engine_after 0.99) ! 1) = - 2.05"
    by (simp add: two_point_engine_after_def)
  from spring_acceleration[OF two_point_engine_update l m']
  have t: "ay (points (two_point_engine_after 0.99) ! 1) =
       snd (base_acceleration (two_point_engine 0.99) (points (two_point_engine 0.99) ! 1))
       + sum_list (map (\<lambda>sp. snd (spring_pull 0.05 sp (points (two_point_engine 0.99)) 1))
           (springs (two_point_engine 0.99)))"
    by (rule conjunct2)
  show ?thesis
    by (intro conjI two_point_engine_update l m t b two_point_engine_pulls(2) a)
qed

text \<open>
  C4. The claim: an out-of-range point index makes every operation a silent no-op, never
  a failure. \<open>addSpring\<close>, \<open>removePoint\<close> and \<open>applyForceToPoint\<close> test their indices
  (lemmas \<open>addSpring_skips\<close> and \<open>guarded_operations_skip\<close>); \<open>addDistanceConstraint\<close> has
  no test, and neither has the constraint loop of \<open>update\<close>: after
  \<^verbatim>\<open>addPoint(0, 0, 1, false); addDistanceConstraint(0, 5, 10, 0.5)\<close> the constraint is
  stored, and \<open>update\<close> throws a TypeError when it reads \<^verbatim>\<open>p2.x\<close> of the missing
  point.
\<close>

theorem dangling_constraint_throws:
  "constraints dangling_engine \<noteq> constraints (snd (addPoint 0 0 1 False new_simulation))
   \<and> update 1 dangling_engine = Inl TypeError"
  by (simp add: dangling_engine_def addDistanceConstraint_def addPoint_def new_simulation_def
      update_def pre_integrate_def collisions_def apply_constraint_def point_at_def
      reset_acceleration_def)

text \<open>
  C5. The claim: after every step every point lies in
  \<open>[5, canvasWidth - 5] \<times> [5, canvasHeight - 5]\<close>, and a coordinate carried past a bound is
  clamped with its velocity component multiplied by \<open>-0.3\<close>. The integration loop skips
  fixed points, so a fixed point added outside the bounds stays outside: after
  \<^verbatim>\<open>addPoint(0, 0, 1, true)\<close> and \<open>update\<close> the point is still at \<open>(0, 0)\<close>.
\<close>

theorem fixed_point_outside_bounds:
  "(case update 1 anchored_engine of
      Inl e \<Rightarrow> False
    | Inr s' \<Rightarrow> fixed (points s' ! 0) \<and> p_x (points s' ! 0) = 0 \<and> p_y (points s' ! 0) = 0
               \<and> \<not> (5 \<le> p_x (points s' ! 0)))"
  by (simp add: update_def pre_integrate_def anchored_engine_def addPoint_def new_simulation_def
      collisions_def reset_acceleration_def integrate_point_def Let_def)

text \<open>
  C5, as amended. After every \<open>update\<close> that returns, a fixed point is as it was before
  the step, with its acceleration reset to zero: no pass moves, integrates or clamps it,
  inside the bounds or not. On a canvas at least 10 wide and 10 high, in an engine whose
  points have positive masses, every point that is not fixed lies in
  \<open>[5, canvasWidth - 5] \<times> [5, canvasHeight - 5]\<close>; its coordinate and
  velocity component on each axis are the \<open>bounced\<close> ones of the coordinate and velocity
  that the integration computed from the point as the earlier passes of the step left it:
  clamped to the bound and multiplied by \<open>-0.3\<close> when the coordinate was carried past a
  bound, kept otherwise.
\<close>

theorem update_clamps_free_points:
  assumes "update deltaTime s = Inr s'" and "i < length (points s)"
  shows "(fixed (points s ! i) \<longrightarrow> points s' ! i = (points s ! i)\<lparr>ax := 0, ay := 0\<rparr>)
    \<and> (\<not> fixed (points s ! i) \<and> 10 \<le> canvasWidth s \<and> 10 \<le> canvasHeight s
        \<and> (\<forall>p \<in> set (points s). 0 < mass p) \<longrightarrow>
         5 \<le> p_x (points s' ! i) \<and> p_x (points s' ! i) \<le> canvasWidth s - 5
         \<and> 5 \<le> p_y (points s' ! i) \<and> p_y (points s' ! i) \<le> canvasHeight s - 5
         \<and> (\<exists>pts. pre_integrate s = Inr pts
              \<and> (p_x (points s' ! i), vx (points s' ! i))
                  = bounced (canvasWidth s) (moved_x deltaTime (pts ! i))
                      (moved_vx deltaTime (pts ! i))
              \<and> (p_y (points s' ! i), vy (points s' ! i))
                  = bounced (canvasHeight s) (moved_y deltaTime (pts ! i))
                      (moved_vy deltaTime (pts ! i))))"
proof -
  have anchored: "points s' ! i = (points s ! i)\<lparr>ax := 0, ay := 0\<rparr>" if "fixed (points s ! i)"
    using update_fixed[OF assms(1,2) that] by (simp add: reset_acceleration_def)
  have clamped: "5 \<le> p_x (points s' ! i) \<and> p_x (points s' ! i) \<le> canvasWidth s - 5
         \<and> 5 \<le> p_y (points s' ! i) \<and> p_y (points s' ! i) \<le> canvasHeight s - 5
         \<and> (\<exists>pts. pre_integrate s = Inr pts
              \<and> (p_x (points s' ! i), vx (points s' ! i))
                  = bounced (canvasWidth s) (moved_x deltaTime (pts ! i))
                      (moved_vx deltaTime (pts ! i))
              \<and> (p_y (points s' ! i), vy (points s' ! i))
                  = bounced (canvasHeight s) (moved_y deltaTime (pts ! i))
                      (moved_vy deltaTime (pts ! i)))"
    if nf: "\<not> fixed (points s ! i)" and w: "10 \<le> canvasWidth s" and h: "10 \<le> canvasHeight s"
  proof -
    from assms(1) obtain pts where
      pre: "pre_integrate s = Inr pts" and
      s': "points s' = map (integrate_point (canvasWidth s) (canvasHeight s) deltaTime) pts"
      by (auto simp: update_def split: sum.splits)
    from pre_integrate_shape[OF pre] have len: "length pts = length (points s)"
      and fx: "map fixed pts = map fixed (points s)" by simp_all
    from fx have "map fixed pts ! i = map fixed (points s) ! i" by simp
    then have "fixed (pts ! i) = fixed (points s ! i)" using assms(2) len by simp
    with nf have free: "\<not> fixed (pts ! i)" by simp
    have r: "points s' ! i = integrate_point (canvasWidth s) (canvasHeight s) deltaTime (pts ! i)"
      using s' assms(2) len by simp
    note ip = integrate_point_free[OF free w h, of deltaTime]
    have cx: "p_x (points s' ! i)
        = fst (bounced (canvasWidth s) (moved_x deltaTime (pts ! i)) (moved_vx deltaTime (pts ! i)))"
      using arg_cong[OF ip(1), of fst] r by simp
    have cy: "p_y (points s' ! i)
        = fst (bounced (canvasHeight s) (moved_y deltaTime (pts ! i)) (moved_vy deltaTime (pts ! i)))"
      using arg_cong[OF ip(2), of fst] r by simp
    show ?thesis
      using cx cy bounced_in_range[OF w] bounced_in_range[OF h] pre ip r
      by simp
  qed
  show ?thesis using anchored clamped by blast
qed

theorem update_clamps_free_points_witness:
  "update 1 wall_engine = Inr wall_engine_after
   \<and> 0 < length (points wall_engine) \<and> \<not> fixed (points wall_engine ! 0)
   \<and> 10 \<le> canvasWidth wall_engine \<and> 10 \<le> canvasHeight wall_engine
   \<and> map mass (points wall_engine) = [1]
   \<and> 5 \<le> p_x (points wall_engine_after ! 0)
   \<and> p_x (points wall_engine_after ! 0) \<le> canvasWidth wall_engine - 5
   \<and> 5 \<le> p_y (points wall_engine_after ! 0)
   \<and> p_y (points wall_engine_after ! 0) \<le> canvasHeight wall_engine - 5
   \<and> update 1 (two_point_engine 0.99) = Inr (two_point_engine_after 0.99)
   \<and> 0 < length (points (two_point_engine 0.99))
   \<and> fixed (points (two_point_engine 0.99) ! 0)
   \<and> points (two_point_engine_after 0.99) ! 0
       = (points (two_point_engine 0.99) ! 0)\<lparr>ax := 0, ay := 0\<rparr>"
proof -
  have f: "0 < length (points wall_engine)" "\<not> fixed (points wall_engine ! 0)"
    "10 \<le> canvasWidth wall_engine" "10 \<le> canvasHeight wall_engine"
    "map mass (points wall_engine) = [1]"
    and m: "\<forall>p \<in> set (points wall_engine). 0 < mass p"
    by (simp_all add: wall_engine_def new_simulation_def)
  have g: "0 < length (points (two_point_engine 0.99))"
    "fixed (points (two_point_engine 0.99) ! 0)"
    by (simp_all add: two_point_engine_def new_simulation_def)
  from update_clamps_free_points[OF wall_engine_update f(1)] f(2,3,4) m
  have b: "5 \<le> p_x (points wall_engine_after ! 0)"
    "p_x (points wall_engine_after ! 0) \<le> canvasWidth wall_engine - 5"
    "5 \<le> p_y (points wall_engine_after ! 0)"
    "p_y (points wall_engine_after ! 0) \<le> canvasHeight wall_engine - 5"
    by blast+
  from update_clamps_free_points[OF two_point_engine_update g(1)] g(2)
  have a: "points (two_point_engine_after 0.99) ! 0
       = (points (two_point_engine 0.99) ! 0)\<lparr>ax := 0, ay := 0\<rparr>"
    by blast
  show ?thesis
    by (intro conjI wall_engine_update f b two_point_engine_update g a)
qed

text \<open>
  C6. The claim: the collision pass of a step strictly increases the separation of every
  pair of points that are closer than 10, unless exactly one of them is fixed. The pass
  handles the pairs one after the other, in index order, on the positions as the earlier
  pairs left them, and never returns to a pair: of three free points on a line at 0, 8
  and 11, the first two are pushed apart to -1 and 9, and the pair of the second and
  third then pushes the second back to 5. The first pair ends at distance 6, closer than
  the 8 it started with.
\<close>

theorem cluster_pair_pushed_together:
  "\<not> fixed (cluster ! 0) \<and> \<not> fixed (cluster ! 1)
   \<and> separation (cluster ! 0) (cluster ! 1) = 8
   \<and> separation (collisions cluster ! 0) (collisions cluster ! 1) = 6"
  by (simp add: cluster_collisions)
     (simp add: cluster_def free_point_def separation_def sqrt_numerals)

text \<open>
  C6, as amended. The collision pass handles every pair of indices \<open>i < j\<close> once, in the
  order of the first and then of the second index, each pair on the positions as the
  earlier pairs left them; in a step that returns it runs once, on points that have the
  positions, velocities, masses and flags of the start of the step, and hands its result
  to the constraint pass. A pair at distance 0 or at least 10 is left as it is. When the
  pass reaches a pair whose distance \<open>d\<close> is positive and below 10, each point of the pair
  that is not fixed is moved away from the other along the separation vector by half the
  overlap \<open>(10 - d) / 2\<close>, fixed points and all other points are kept, and right after
  this correction the distance of the pair is 10 when both points are free,
  \<open>(10 + d) / 2\<close> when exactly one is fixed (only the free point has moved), and \<open>d\<close> when
  both are fixed.
\<close>

theorem collide_pair_separates:
  "collisions pts = fold (\<lambda>(i, j). collide_pair i j) (index_pairs (length pts)) pts
   \<and> set (index_pairs n) = {(i, j). i < j \<and> j < n}
   \<and> distinct (index_pairs n)
   \<and> sorted_wrt pair_before (index_pairs n)
   \<and> (pre_integrate s = Inr out \<longrightarrow>
        (\<exists>pts3. map frame pts3 = map frame (points s)
           \<and> apply_constraints (constraints s) (collisions pts3) = Inr out))
   \<and> (separation (pts ! i) (pts ! j) = 0 \<or> 10 \<le> separation (pts ! i) (pts ! j) \<longrightarrow>
        collide_pair i j pts = pts)
   \<and> (i < j \<and> j < length pts
        \<and> 0 < separation (pts ! i) (pts ! j) \<and> separation (pts ! i) (pts ! j) < 10 \<longrightarrow>
        length (collide_pair i j pts) = length pts
        \<and> collide_pair i j pts ! i = push_first (pts ! i) (pts ! j)
        \<and> collide_pair i j pts ! j = push_second (pts ! i) (pts ! j)
        \<and> (\<forall>k < length pts. k \<noteq> i \<and> k \<noteq> j \<longrightarrow> collide_pair i j pts ! k = pts ! k)
        \<and> separation (collide_pair i j pts ! i) (collide_pair i j pts ! j) =
            (if fixed (pts ! i) \<and> fixed (pts ! j) then separation (pts ! i) (pts ! j)
             else if fixed (pts ! i) \<or> fixed (pts ! j)
             then (10 + separation (pts ! i) (pts ! j)) / 2
             else 10))"
proof -
  have pair: "length (collide_pair i j pts) = length pts
        \<and> collide_pair i j pts ! i = push_first (pts ! i) (pts ! j)
        \<and> collide_pair i j pts ! j = push_second (pts ! i) (pts ! j)
        \<and> (\<forall>k < length pts. k \<noteq> i \<and> k \<noteq> j \<longrightarrow> collide_pair i j pts ! k = pts ! k)
        \<and> separation (collide_pair i j pts ! i) (collide_pair i j pts ! j) =
            (if fixed (pts ! i) \<and> fixed (pts ! j) then separation (pts ! i) (pts ! j)
             else if fixed (pts ! i) \<or> fixed (pts ! j)
             then (10 + separation (pts ! i) (pts ! j)) / 2
             else 10)"
    if "i < j \<and> j < length pts
        \<and> 0 < separation (pts ! i) (pts ! j) \<and> separation (pts ! i) (pts ! j) < 10"
    using that by (intro collide_pair_effect) simp_all
  have pass: "\<exists>pts3. map frame pts3 = map frame (points s)
           \<and> apply_constraints (constraints s) (collisions pts3) = Inr out"
    if "pre_integrate s = Inr out"
    using that by (rule pre_integrate_collision_pass)
  have skip: "collide_pair i j pts = pts"
    if "separation (pts ! i) (pts ! j) = 0 \<or> 10 \<le> separation (pts ! i) (pts ! j)"
    using that by (rule collide_pair_skip)
  show ?thesis
    using pair pass skip collisions_pairs[of pts] index_pairs_set[of n] index_pairs_distinct[of n]
      index_pairs_sorted[of n]
    by (intro conjI impI) blast+
qed

theorem collide_pair_separates_witness:
  "collisions cluster = fold (\<lambda>(i, j). collide_pair i j) (index_pairs (length cluster)) cluster
   \<and> index_pairs (length cluster) = [(0, 1), (0, 2), (1, 2)]
   \<and> pre_integrate (new_simulation\<lparr>points := cluster\<rparr>) = Inr (collisions cluster)
   \<and> (\<exists>pts3. map frame pts3 = map frame (points (new_simulation\<lparr>points := cluster\<rparr>))
         \<and> apply_constraints (constraints (new_simulation\<lparr>points := cluster\<rparr>))
               (collisions pts3) = Inr (collisions cluster))
   \<and> 10 \<le> separation (cluster ! 0) (cluster ! 2)
   \<and> collide_pair 0 2 cluster = cluster
   \<and> (0::nat) < 1 \<and> 1 < length close_pair
   \<and> 0 < separation (close_pair ! 0) (close_pair ! 1)
   \<and> separation (close_pair ! 0) (close_pair ! 1) < 10
   \<and> \<not> fixed (close_pair ! 0) \<and> \<not> fixed (close_pair ! 1)
   \<and> separation (collide_pair 0 1 close_pair ! 0) (collide_pair 0 1 close_pair ! 1) = 10"
proof -
  have s: "separation (close_pair ! 0) (close_pair ! 1) = 5"
    by (rule close_pair_separation)
  have f: "\<not> fixed (close_pair ! 0)" "\<not> fixed (close_pair ! 1)"
    by (simp_all add: close_pair_def free_point_def)
  have l: "length close_pair = 2"
    by (simp add: close_pair_def)
  have h: "(0::nat) < 1" "1 < length close_pair"
    "0 < separation (close_pair ! 0) (close_pair ! 1)"
    "separation (close_pair ! 0) (close_pair ! 1) < 10"
    using s l by simp_all
  note near = collide_pair_separates[where pts = close_pair and i = 0 and j = 1]
  note th = collide_pair_separates[where pts = cluster and i = 0 and j = 2 and n = 3
      and s = "new_simulation\<lparr>points := cluster\<rparr>" and out = "collisions cluster"]
  have far: "10 \<le> separation (cluster ! 0) (cluster ! 2)"
    by (simp add: cluster_def free_point_def separation_def)
  have skip: "collide_pair 0 2 cluster = cluster"
    using th far by blast
  have "separation (collide_pair 0 1 close_pair ! 0) (collide_pair 0 1 close_pair ! 1) =
      (if fixed (close_pair ! 0) \<and> fixed (close_pair ! 1)
       then separation (close_pair ! 0) (close_pair ! 1)
       else if fixed (close_pair ! 0) \<or> fixed (close_pair ! 1)
       then (10 + separation (close_pair ! 0) (close_pair ! 1)) / 2
       else 10)"
    using near h by blast
  then have ten: "separation (collide_pair 0 1 close_pair ! 0) (collide_pair 0 1 close_pair ! 1) = 10"
    using f by simp
  have pass: "collisions cluster
      = fold (\<lambda>(i, j). collide_pair i j) (index_pairs (length cluster)) cluster"
    using th by blast
  have lc: "length cluster = 3" by (simp add: cluster_def)
  have ip: "index_pairs (length cluster) = [(0, 1), (0, 2), (1, 2)]"
    by (simp only: lc index_pairs_3)
  have pre: "pre_integrate (new_simulation\<lparr>points := cluster\<rparr>) = Inr (collisions cluster)"
    by (simp add: pre_integrate_def new_simulation_def cluster_def free_point_def
        reset_acceleration_def)
  have run: "\<exists>pts3. map frame pts3 = map frame (points (new_simulation\<lparr>points := cluster\<rparr>))
         \<and> apply_constraints (constraints (new_simulation\<lparr>points := cluster\<rparr>))
               (collisions pts3) = Inr (collisions cluster)"
    using th pre by blast
  show ?thesis
    by (intro conjI pass ip pre run far skip h f ten)
qed

text \<open>
  C7. The claim: for a free point on which no force acts, each step multiplies the
  velocity only by the air resistance 0.999. The boundary tests of the integration loop
  also act on such a point: a free point at \<open>x = 6\<close> with velocity \<open>-10\<close>, alone in an engine
  without gravity, wind, springs or constraints, is carried to \<open>x = -3.99\<close>, put back on
  the margin 5, and leaves the step with the velocity \<open>2.997\<close>, not \<open>-9.99\<close>.
\<close>

theorem bounce_changes_velocity:
  "calm wall_engine \<and> \<not> fixed (points wall_engine ! 0)
   \<and> update 1 wall_engine = Inr wall_engine_after
   \<and> vx (points wall_engine_after ! 0) \<noteq> 0.999 * vx (points wall_engine ! 0)"
  by (simp add: wall_engine_calm wall_engine_update)
     (simp add: wall_engine_def wall_engine_after_def)

text \<open>
  The collision pass can also move a point that has no other point within 10 units:
  when it pushes two other points apart, one of them can come within 10 units of it
  later in the same pass. Hence the amended claim asks, for the position, that no two
  points of the engine are in contact.
\<close>

lemma distant_point_displaced:
  "10 \<le> separation (drifting ! 2) (drifting ! 0)
   \<and> 10 \<le> separation (drifting ! 2) (drifting ! 1)
   \<and> p_x (collisions drifting ! 2) = - 1 \<and> p_x (drifting ! 2) = 0"
  by (simp add: drifting_collisions)
     (simp add: drifting_def free_point_def separation_def sqrt_numerals)

text \<open>
  C7, as amended. In an engine without gravity, wind, springs and constraints, for every
  point that is not fixed: after \<open>n\<close> steps each velocity component has a magnitude of at
  most \<open>0.999 ^ n\<close> times the initial one, on any canvas. On a canvas at least 10 wide and
  high, one step multiplies each velocity component by 0.999 and, when the coordinate as
  the collision pass left it, moved by that velocity times \<open>deltaTime\<close>, lies past a bound,
  puts the coordinate on the bound and multiplies the velocity component by \<open>-0.3\<close> as
  well. When, in addition, no two points are at a positive distance below 10, the
  collision pass moves nothing: the coordinate moves by the new velocity times
  \<open>deltaTime\<close> from where it was, and a coordinate that was inside the bounds moves by at
  most \<open>0.999 * |velocity| * |deltaTime|\<close>. When that holds before each of the first
  \<open>n + 1\<close> steps and the point starts inside the bounds, step \<open>n + 1\<close> moves each
  coordinate by at most \<open>0.999 ^ (n + 1) * |initial velocity| * |deltaTime|\<close>: the
  displacement of a step tends to zero.
\<close>

theorem forceless_velocity_decay:
  assumes "forceless s" and "i < length (points s)" and "\<not> fixed (points s ! i)"
  shows "(\<exists>t. updates n deltaTime s = Inr t
            \<and> \<bar>vx (points t ! i)\<bar> \<le> 0.999 ^ n * \<bar>vx (points s ! i)\<bar>
            \<and> \<bar>vy (points t ! i)\<bar> \<le> 0.999 ^ n * \<bar>vy (points s ! i)\<bar>)
    \<and> (10 \<le> canvasWidth s \<and> 10 \<le> canvasHeight s \<longrightarrow>
         (\<exists>s'. update deltaTime s = Inr s'
             \<and> (p_x (points s' ! i), vx (points s' ! i))
                 = bounced (canvasWidth s)
                     (p_x (collisions (map reset_acceleration (points s)) ! i)
                        + 0.999 * vx (points s ! i) * deltaTime)
                     (0.999 * vx (points s ! i))
             \<and> (p_y (points s' ! i), vy (points s' ! i))
                 = bounced (canvasHeight s)
                     (p_y (collisions (map reset_acceleration (points s)) ! i)
                        + 0.999 * vy (points s ! i) * deltaTime)
                     (0.999 * vy (points s ! i))))
    \<and> (calm s \<and> 10 \<le> canvasWidth s \<and> 10 \<le> canvasHeight s \<longrightarrow>
         (\<exists>s'. update deltaTime s = Inr s'
             \<and> (p_x (points s' ! i), vx (points s' ! i))
                 = bounced (canvasWidth s)
                     (p_x (points s ! i) + 0.999 * vx (points s ! i) * deltaTime)
                     (0.999 * vx (points s ! i))
             \<and> (p_y (points s' ! i), vy (points s' ! i))
                 = bounced (canvasHeight s)
                     (p_y (points s ! i) + 0.999 * vy (points s ! i) * deltaTime)
                     (0.999 * vy (points s ! i))
             \<and> (5 \<le> p_x (points s ! i) \<and> p_x (points s ! i) \<le> canvasWidth s - 5 \<longrightarrow>
                  \<bar>p_x (points s' ! i) - p_x (points s ! i)\<bar>
                    \<le> 0.999 * \<bar>vx (points s ! i)\<bar> * \<bar>deltaTime\<bar>)
             \<and> (5 \<le> p_y (points s ! i) \<and> p_y (points s ! i) \<le> canvasHeight s - 5 \<longrightarrow>
                  \<bar>p_y (points s' ! i) - p_y (points s ! i)\<bar>
                    \<le> 0.999 * \<bar>vy (points s ! i)\<bar> * \<bar>deltaTime\<bar>)))
    \<and> (calm_steps (Suc n) deltaTime s \<and> 10 \<le> canvasWidth s \<and> 10 \<le> canvasHeight s
        \<and> 5 \<le> p_x (points s ! i) \<and> p_x (points s ! i) \<le> canvasWidth s - 5
        \<and> 5 \<le> p_y (points s ! i) \<and> p_y (points s ! i) \<le> canvasHeight s - 5 \<longrightarrow>
         (\<exists>t t'. updates n deltaTime s = Inr t \<and> update deltaTime t = Inr t'
             \<and> \<bar>p_x (points t' ! i) - p_x (points t ! i)\<bar>
                 \<le> 0.999 ^ Suc n * \<bar>vx (points s ! i)\<bar> * \<bar>deltaTime\<bar>
             \<and> \<bar>p_y (points t' ! i) - p_y (points t ! i)\<bar>
                 \<le> 0.999 ^ Suc n * \<bar>vy (points s ! i)\<bar> * \<bar>deltaTime\<bar>))"
proof (intro conjI impI)
  show "\<exists>t. updates n deltaTime s = Inr t
            \<and> \<bar>vx (points t ! i)\<bar> \<le> 0.999 ^ n * \<bar>vx (points s ! i)\<bar>
            \<and> \<bar>vy (points t ! i)\<bar> \<le> 0.999 ^ n * \<bar>vy (points s ! i)\<bar>"
    by (rule forceless_decay[OF assms])
next
  assume "10 \<le> canvasWidth s \<and> 10 \<le> canvasHeight s"
  then have wh: "10 \<le> canvasWidth s" "10 \<le> canvasHeight s" by simp_all
  show "\<exists>s'. update deltaTime s = Inr s'
             \<and> (p_x (points s' ! i), vx (points s' ! i))
                 = bounced (canvasWidth s)
                     (p_x (collisions (map reset_acceleration (points s)) ! i)
                        + 0.999 * vx (points s ! i) * deltaTime)
                     (0.999 * vx (points s ! i))
             \<and> (p_y (points s' ! i), vy (points s' ! i))
                 = bounced (canvasHeight s)
                     (p_y (collisions (map reset_acceleration (points s)) ! i)
                        + 0.999 * vy (points s ! i) * deltaTime)
                     (0.999 * vy (points s ! i))"
    by (rule forceless_step_exact[OF assms wh])
next
  assume "calm s \<and> 10 \<le> canvasWidth s \<and> 10 \<le> canvasHeight s"
  then have c: "calm s" and wh: "10 \<le> canvasWidth s" "10 \<le> canvasHeight s" by simp_all
  from calm_step[OF c assms(2,3) wh, of deltaTime] obtain s' where
    "update deltaTime s = Inr s'"
    "(p_x (points s' ! i), vx (points s' ! i))
         = bounced (canvasWidth s) (p_x (points s ! i) + 0.999 * vx (points s ! i) * deltaTime)
             (0.999 * vx (points s ! i))"
    "(p_y (points s' ! i), vy (points s' ! i))
         = bounced (canvasHeight s) (p_y (points s ! i) + 0.999 * vy (points s ! i) * deltaTime)
             (0.999 * vy (points s ! i))"
    "5 \<le> p_x (points s ! i) \<and> p_x (points s ! i) \<le> canvasWidth s - 5 \<longrightarrow>
          \<bar>p_x (points s' ! i) - p_x (points s ! i)\<bar>
            \<le> 0.999 * \<bar>vx (points s ! i)\<bar> * \<bar>deltaTime\<bar>"
    "5 \<le> p_y (points s ! i) \<and> p_y (points s ! i) \<le> canvasHeight s - 5 \<longrightarrow>
          \<bar>p_y (points s' ! i) - p_y (points s ! i)\<bar>
            \<le> 0.999 * \<bar>vy (points s ! i)\<bar> * \<bar>deltaTime\<bar>"
    by blast
  then show "\<exists>s'. update deltaTime s = Inr s'
             \<and> (p_x (points s' ! i), vx (points s' ! i))
                 = bounced (canvasWidth s)
                     (p_x (points s ! i) + 0.999 * vx (points s ! i) * deltaTime)
                     (0.999 * vx (points s ! i))
             \<and> (p_y (points s' ! i), vy (points s' ! i))
                 = bounced (canvasHeight s)
                     (p_y (points s ! i) + 0.999 * vy (points s ! i) * deltaTime)
                     (0.999 * vy (points s ! i))
             \<and> (5 \<le> p_x (points s ! i) \<and> p_x (points s ! i) \<le> canvasWidth s - 5 \<longrightarrow>
                  \<bar>p_x (points s' ! i) - p_x (points s ! i)\<bar>
                    \<le> 0.999 * \<bar>vx (points s ! i)\<bar> * \<bar>deltaTime\<bar>)
             \<and> (5 \<le> p_y (points s ! i) \<and> p_y (points s ! i) \<le> canvasHeight s - 5 \<longrightarrow>
                  \<bar>p_y (points s' ! i) - p_y (points s ! i)\<bar>
                    \<le> 0.999 * \<bar>vy (points s ! i)\<bar> * \<bar>deltaTime\<bar>)"
    by (intro exI[of _ s'] conjI)
next
  assume a: "calm_steps (Suc n) deltaTime s \<and> 10 \<le> canvasWidth s \<and> 10 \<le> canvasHeight s
        \<and> 5 \<le> p_x (points s ! i) \<and> p_x (points s ! i) \<le> canvasWidth s - 5
        \<and> 5 \<le> p_y (points s ! i) \<and> p_y (points s ! i) \<le> canvasHeight s - 5"
  then have h: "calm_steps (Suc n) deltaTime s" "10 \<le> canvasWidth s" "10 \<le> canvasHeight s"
    "5 \<le> p_x (points s ! i)" "p_x (points s ! i) \<le> canvasWidth s - 5"
    "5 \<le> p_y (points s ! i)" "p_y (points s ! i) \<le> canvasHeight s - 5"
    by blast+
  show "\<exists>t t'. updates n deltaTime s = Inr t \<and> update deltaTime t = Inr t'
             \<and> \<bar>p_x (points t' ! i) - p_x (points t ! i)\<bar>
                 \<le> 0.999 ^ Suc n * \<bar>vx (points s ! i)\<bar> * \<bar>deltaTime\<bar>
             \<and> \<bar>p_y (points t' ! i) - p_y (points t ! i)\<bar>
                 \<le> 0.999 ^ Suc n * \<bar>vy (points s ! i)\<bar> * \<bar>deltaTime\<bar>"
    by (rule calm_steps_settle[OF h(1) assms(2,3) h(2-7)])
qed

theorem forceless_velocity_decay_witness:
  "forceless wall_engine \<and> 0 < length (points wall_engine)
   \<and> \<not> fixed (points wall_engine ! 0)
   \<and> updates 2 1 wall_engine = Inr wall_engine_later
   \<and> \<bar>vx (points wall_engine_later ! 0)\<bar> \<le> 0.999 ^ 2 * \<bar>vx (points wall_engine ! 0)\<bar>
   \<and> calm wall_engine \<and> 10 \<le> canvasWidth wall_engine \<and> 10 \<le> canvasHeight wall_engine
   \<and> update 1 wall_engine = Inr wall_engine_after
   \<and> (p_x (points wall_engine_after ! 0), vx (points wall_engine_after ! 0))
       = bounced 800 (- 3.99) (- 9.99)
   \<and> calm_steps 2 1 wall_engine
   \<and> 5 \<le> p_x (points wall_engine ! 0)
   \<and> p_x (points wall_engine ! 0) \<le> canvasWidth wall_engine - 5
   \<and> 5 \<le> p_y (points wall_engine ! 0)
   \<and> p_y (points wall_engine ! 0) \<le> canvasHeight wall_engine - 5
   \<and> updates 1 1 wall_engine = Inr wall_engine_after
   \<and> update 1 wall_engine_after = Inr wall_engine_later
   \<and> \<bar>p_x (points wall_engine_later ! 0) - p_x (points wall_engine_after ! 0)\<bar>
       \<le> 0.999 ^ 2 * \<bar>vx (points wall_engine ! 0)\<bar> * \<bar>1\<bar>"
proof -
  have l: "0 < length (points wall_engine)" and f: "\<not> fixed (points wall_engine ! 0)"
    and w: "10 \<le> canvasWidth wall_engine" "10 \<le> canvasHeight wall_engine"
    and inside: "5 \<le> p_x (points wall_engine ! 0)"
      "p_x (points wall_engine ! 0) \<le> canvasWidth wall_engine - 5"
      "5 \<le> p_y (points wall_engine ! 0)"
      "p_y (points wall_engine ! 0) \<le> canvasHeight wall_engine - 5"
    by (simp_all add: wall_engine_def new_simulation_def)
  have u: "updates 2 1 wall_engine = Inr wall_engine_later"
    by (simp add: numeral_2_eq_2 wall_engine_update wall_engine_update2)
  have u1: "updates 1 1 wall_engine = Inr wall_engine_after"
    by (simp add: wall_engine_update)
  have cs: "calm_steps 2 1 wall_engine"
    by (simp add: numeral_2_eq_2 wall_engine_update wall_engine_update2 wall_engine_calm)
  note th2 = forceless_velocity_decay[OF wall_engine_forceless l f, of 2 1]
  note th1 = forceless_velocity_decay[OF wall_engine_forceless l f, of 1 1]
  from th2 u
  have d: "\<bar>vx (points wall_engine_later ! 0)\<bar> \<le> 0.999 ^ 2 * \<bar>vx (points wall_engine ! 0)\<bar>"
    by auto
  from th2 wall_engine_calm(1) w wall_engine_update
  have "(p_x (points wall_engine_after ! 0), vx (points wall_engine_after ! 0))
       = bounced (canvasWidth wall_engine)
           (p_x (points wall_engine ! 0) + 0.999 * vx (points wall_engine ! 0) * 1)
           (0.999 * vx (points wall_engine ! 0))"
    by auto
  then have b: "(p_x (points wall_engine_after ! 0), vx (points wall_engine_after ! 0))
       = bounced 800 (- 3.99) (- 9.99)"
    by (simp add: wall_engine_def new_simulation_def)
  have cs1: "calm_steps (Suc 1) 1 wall_engine" using cs by (simp add: numeral_2_eq_2)
  from th1 cs1 w inside
  have "\<exists>t t'. updates 1 1 wall_engine = Inr t \<and> update 1 t = Inr t'
      \<and> \<bar>p_x (points t' ! 0) - p_x (points t ! 0)\<bar>
          \<le> 0.999 ^ Suc 1 * \<bar>vx (points wall_engine ! 0)\<bar> * \<bar>1\<bar>
      \<and> \<bar>p_y (points t' ! 0) - p_y (points t ! 0)\<bar>
          \<le> 0.999 ^ Suc 1 * \<bar>vy (points wall_engine ! 0)\<bar> * \<bar>1\<bar>"
    by blast
  then obtain t t' where tt: "updates 1 1 wall_engine = Inr t" "update 1 t = Inr t'"
    "\<bar>p_x (points t' ! 0) - p_x (points t ! 0)\<bar>
          \<le> 0.999 ^ Suc 1 * \<bar>vx (points wall_engine ! 0)\<bar> * \<bar>1\<bar>"
    by blast
  from tt(1) u1 have t: "t = wall_engine_after" by simp
  from tt(2) t wall_engine_update2 have t': "t' = wall_engine_later" by simp
  have e: "\<bar>p_x (points wall_engine_later ! 0) - p_x (points wall_engine_after ! 0)\<bar>
       \<le> 0.999 ^ 2 * \<bar>vx (points wall_engine ! 0)\<bar> * \<bar>1\<bar>"
    using tt(3) unfolding t t' by (simp only: numeral_2_eq_2 One_nat_def)
  show ?thesis
    by (intro conjI wall_engine_forceless l f u d wall_engine_calm(1) w wall_engine_update b
        cs inside u1 wall_engine_update2 e)
qed

text \<open>
  C10. The \<open>damping\<close> field of a spring never influences the simulation: two engines that
  differ only in the \<open>damping\<close> values of their springs have the same points after
  \<open>update\<close> (and \<open>update\<close> throws for both or for neither). The damping coefficient that
  a step applies is the constant 0.05: the acceleration of every point after the step is
  the one of the gravity and wind passes plus the sum of the terms \<open>spring_pull 0.05\<close> of
  the springs, and \<open>spring_pull\<close> does not read the \<open>damping\<close> field.
\<close>

theorem update_ignores_damping:
  "(differ_in_damping_only s t \<longrightarrow>
      map_sum id points (update deltaTime s) = map_sum id points (update deltaTime t))
   \<and> (update deltaTime s = Inr s' \<and> k < length (points s)
       \<and> (\<forall>p \<in> set (points s). 0 < mass p) \<longrightarrow>
        ax (points s' ! k) =
          fst (base_acceleration s (points s ! k))
          + sum_list (map (\<lambda>sp. fst (spring_pull 0.05 sp (points s) k)) (springs s))
        \<and> ay (points s' ! k) =
          snd (base_acceleration s (points s ! k))
          + sum_list (map (\<lambda>sp. snd (spring_pull 0.05 sp (points s) k)) (springs s)))
   \<and> spring_pull c (sp\<lparr>damping := d\<rparr>) pts n = spring_pull c sp pts n"
proof -
  have first: "map_sum id points (update deltaTime s) = map_sum id points (update deltaTime t)"
    if "differ_in_damping_only s t"
    using that pre_integrate_damping[OF that]
    by (simp add: update_def differ_in_damping_only_def split: sum.splits)
  have second: "ax (points s' ! k) =
          fst (base_acceleration s (points s ! k))
          + sum_list (map (\<lambda>sp. fst (spring_pull 0.05 sp (points s) k)) (springs s))
        \<and> ay (points s' ! k) =
          snd (base_acceleration s (points s ! k))
          + sum_list (map (\<lambda>sp. snd (spring_pull 0.05 sp (points s) k)) (springs s))"
    if "update deltaTime s = Inr s' \<and> k < length (points s)
       \<and> (\<forall>p \<in> set (points s). 0 < mass p)"
    using that by (intro update_acceleration[of deltaTime]) simp_all
  show ?thesis
    using first second spring_pull_damping[of c d sp pts n] by blast
qed

theorem update_ignores_damping_witness:
  "differ_in_damping_only (two_point_engine 0.99) (two_point_engine 0.5)
   \<and> map damping (springs (two_point_engine 0.99)) = [0.99]
   \<and> map damping (springs (two_point_engine 0.5)) = [0.5]
   \<and> map_sum id points (update 1 (two_point_engine 0.99))
     = map_sum id points (update 1 (two_point_engine 0.5))
   \<and> update 1 (two_point_engine 0.99) = Inr (two_point_engine_after 0.99)
   \<and> 1 < length (points (two_point_engine 0.99))
   \<and> map mass (points (two_point_engine 0.99)) = [1, 1]
   \<and> ay (points (two_point_engine_after 0.99) ! 1) =
       snd (base_acceleration (two_point_engine 0.99) (points (two_point_engine 0.99) ! 1))
       + sum_list (map (\<lambda>sp. snd (spring_pull 0.05 sp (points (two_point_engine 0.99)) 1))
           (springs (two_point_engine 0.99)))
   \<and> sum_list (map (\<lambda>sp. snd (spring_pull 0.05 sp (points (two_point_engine 0.99)) 1))
        (springs (two_point_engine 0.99))) = - 2 - 0.05"
proof -
  have d: "differ_in_damping_only (two_point_engine 0.99) (two_point_engine 0.5)"
    and dm: "map damping (springs (two_point_engine 0.99)) = [0.99]"
      "map damping (springs (two_point_engine 0.5)) = [0.5]"
    and l: "1 < length (points (two_point_engine 0.99))"
    and m: "map mass (points (two_point_engine 0.99)) = [1, 1]"
    and m': "\<forall>p \<in> set (points (two_point_engine 0.99)). 0 < mass p"
    by (simp_all add: differ_in_damping_only_def two_point_engine_def new_simulation_def)
  note th = update_ignores_damping[where s = "two_point_engine 0.99" and t = "two_point_engine 0.5"
      and deltaTime = 1 and s' = "two_point_engine_after 0.99" and k = 1]
  have e: "map_sum id points (update 1 (two_point_engine 0.99))
     = map_sum id points (update 1 (two_point_engine 0.5))"
    using th d by blast
  have t: "ay (points (two_point_engine_after 0.99) ! 1) =
           snd (base_acceleration (two_point_engine 0.99) (points (two_point_engine 0.99) ! 1))
           + sum_list (map (\<lambda>sp. snd (spring_pull 0.05 sp (points (two_point_engine 0.99)) 1))
               (springs (two_point_engine 0.99)))"
    using th two_point_engine_update[of "0.99"] l m' by blast
  show ?thesis
    by (intro conjI d dm e two_point_engine_update l m t two_point_engine_pulls(2))
qed

section \<open>Lemmas on the growth engine\<close>

subsection \<open>The shape of the result of animateBranches\<close>

lemma spawn_child_shape:
  "\<exists>cs k'. spawn_child settings now rnd b (nb, k) = (nb @ cs, k')
     \<and> (\<forall>c \<in> set cs. \<exists>j. c = child_at settings now rnd b j)
     \<and> (maxBranches \<le> length nb \<longrightarrow> cs = [])
     \<and> length cs \<le> 1"
proof (cases "length nb < maxBranches")
  case True
  obtain child k' where nc: "new_child settings now rnd b
       (angle b + (if drawingMode settings = Organic then (rnd k - 0.5) * pi * 0.4
                else (rnd k - 0.5) * pi * 0.6))
            (length_b b * (0.6 + rnd (k + 1) * 0.3)) (k + 2) = (child, k')"
    by (cases "new_child settings now rnd b
       (angle b + (if drawingMode settings = Organic then (rnd k - 0.5) * pi * 0.4
                else (rnd k - 0.5) * pi * 0.6))
            (length_b b * (0.6 + rnd (k + 1) * 0.3)) (k + 2)")
  then have "child = child_at settings now rnd b k" by (simp add: child_at_def)
  moreover have "spawn_child settings now rnd b (nb, k) = (nb @ [child], k')"
    using True nc by (simp add: spawn_child_def Let_def)
  ultimately show ?thesis using True
    by (intro exI[of _ "[child]"] exI[of _ k']) auto
next
  case False
  then have "spawn_child settings now rnd b (nb, k) = (nb @ [], k + 2)"
    by (simp add: spawn_child_def Let_def)
  then show ?thesis by (intro exI[of _ "[]"] exI[of _ "k + 2"]) simp
qed

lemma spawn_children_shape:
  "\<exists>cs k'. spawn_children n settings now rnd b (nb, k) = (nb @ cs, k')
     \<and> (\<forall>c \<in> set cs. \<exists>j. c = child_at settings now rnd b j)
     \<and> (maxBranches \<le> length nb \<longrightarrow> cs = [])
     \<and> length cs \<le> n"
proof (induction n arbitrary: nb k)
  case 0
  show ?case by (intro exI[of _ "[]"] exI[of _ k]) simp
next
  case (Suc n)
  from spawn_child_shape[of settings now rnd b nb k] obtain cs1 k1 where
    1: "spawn_child settings now rnd b (nb, k) = (nb @ cs1, k1)"
       "\<forall>c \<in> set cs1. \<exists>j. c = child_at settings now rnd b j"
       "maxBranches \<le> length nb \<longrightarrow> cs1 = []" "length cs1 \<le> 1"
    by blast
  from Suc.IH[of "nb @ cs1" k1] obtain cs2 k2 where
    2: "spawn_children n settings now rnd b (nb @ cs1, k1) = ((nb @ cs1) @ cs2, k2)"
       "\<forall>c \<in> set cs2. \<exists>j. c = child_at settings now rnd b j"
       "maxBranches \<le> length (nb @ cs1) \<longrightarrow> cs2 = []" "length cs2 \<le> n"
    by blast
  have "spawn_children (Suc n) settings now rnd b (nb, k) = (nb @ (cs1 @ cs2), k2)"
    using 1(1) 2(1) by simp
  moreover have "\<forall>c \<in> set (cs1 @ cs2). \<exists>j. c = child_at settings now rnd b j"
    using 1(2) 2(2) by auto
  moreover have "maxBranches \<le> length nb \<longrightarrow> cs1 @ cs2 = []"
    using 1(3) 2(3) by auto
  moreover have "length (cs1 @ cs2) \<le> Suc n" using 1(4) 2(4) by simp
  ultimately show ?case by blast
qed

lemma animate_branch_shape:
  fixes settings cb now sm prob maxGen delay rnd b nb calls k
  defines "g \<equiv> grow settings cb now sm b"
  shows "\<exists>t cs k'. animate_branch settings cb now sm prob maxGen delay rnd b (nb, calls, k)
              = (nb @ touched t now (fst g) # cs, calls @ snd g, k')
     \<and> (\<forall>c \<in> set cs. \<exists>j. c = child_at settings now rnd (fst g) j)
     \<and> (maxBranches \<le> length nb + 1 \<longrightarrow> cs = [])"
proof -
  obtain b1 fired where g: "grow settings cb now sm b = (b1, fired)"
    by (cases "grow settings cb now sm b")
  show ?thesis
  proof (cases "progress b1 \<ge> maxProgress b1 \<and> generation b1 < maxGen
       \<and> rnd k < prob * sm \<and> now - lastGrowth b1 > delay \<and> length (nb @ [b1]) < maxBranches")
    case True
    define n1 where "n1 = (if drawingMode settings = Electric then \<lfloor>rnd (k + 1) * 2\<rfloor> + 1 else 1)"
    define k1 where "k1 = (if drawingMode settings = Electric then k + 2 else k + 1)"
    from spawn_children_shape[of "nat n1" settings now rnd b1 "nb @ [b1]" k1]
    obtain cs k2 where
      sc: "spawn_children (nat n1) settings now rnd b1 (nb @ [b1], k1) = ((nb @ [b1]) @ cs, k2)"
          "\<forall>c \<in> set cs. \<exists>j. c = child_at settings now rnd b1 j"
          "maxBranches \<le> length (nb @ [b1]) \<longrightarrow> cs = []"
      by blast
    have "animate_branch settings cb now sm prob maxGen delay rnd b (nb, calls, k)
        = (((nb @ [b1]) @ cs)[length nb := b1\<lparr>lastGrowth := now\<rparr>], calls @ fired, k2)"
      using True g sc(1)
      by (simp add: animate_branch_def Let_def n1_def k1_def split: if_splits)
    also have "((nb @ [b1]) @ cs)[length nb := b1\<lparr>lastGrowth := now\<rparr>]
        = nb @ touched True now b1 # cs"
      by (simp add: touched_def list_update_append)
    finally show ?thesis using sc(2,3) g
      unfolding g_def by (intro exI[of _ True] exI[of _ cs] exI[of _ k2]) simp
  next
    case False
    then have "\<exists>k'. animate_branch settings cb now sm prob maxGen delay rnd b (nb, calls, k)
        = (nb @ touched False now b1 # [], calls @ fired, k')"
      using g by (auto simp: animate_branch_def Let_def touched_def)
    then show ?thesis using g unfolding g_def
      by (auto intro!: exI[of _ False] exI[of _ "[]"])
  qed
qed

lemma animate_loop_Cons:
  "animate_loop settings cb now sm rnd (b # bs) st =
     animate_loop settings cb now sm rnd bs
       (animate_branch settings cb now sm (branchProbability_of (drawingMode settings))
          (maxGenerations_of (drawingMode settings)) (growthDelay_of (drawingMode settings))
          rnd b st)"
  by (simp add: animate_loop_def)

lemma animate_loop_Nil: "animate_loop settings cb now sm rnd [] st = st"
  by (simp add: animate_loop_def)


lemma animate_loop_shape:
  "\<exists>groups k'.
      animate_loop settings cb now sm rnd bs (nb, calls, k) =
        (nb @ concat (map2 (\<lambda>b g. touched (fst g) now (fst (grow settings cb now sm b)) # snd g)
                        bs groups),
         calls @ concat (map (\<lambda>b. snd (grow settings cb now sm b)) bs), k')
    \<and> list_all2 (\<lambda>b g. \<forall>c \<in> set (snd g).
                   \<exists>j. c = child_at settings now rnd (fst (grow settings cb now sm b)) j)
         bs groups
    \<and> (maxBranches \<le> length nb \<longrightarrow> (\<forall>g \<in> set groups. snd g = []))"
proof (induction bs arbitrary: nb calls k)
  case Nil
  show ?case
    by (intro exI[of _ "[]"] exI[of _ k]) (simp add: animate_loop_Nil)
next
  case (Cons b bs)
  let ?g = "grow settings cb now sm b"
  from animate_branch_shape[of settings cb now sm _ _ _ rnd b nb calls k]
  obtain t cs k1 where
    1: "animate_branch settings cb now sm (branchProbability_of (drawingMode settings))
          (maxGenerations_of (drawingMode settings)) (growthDelay_of (drawingMode settings))
          rnd b (nb, calls, k) = (nb @ touched t now (fst ?g) # cs, calls @ snd ?g, k1)"
       "\<forall>c \<in> set cs. \<exists>j. c = child_at settings now rnd (fst ?g) j"
       "maxBranches \<le> length nb + 1 \<longrightarrow> cs = []"
    by blast
  from Cons.IH[of "nb @ touched t now (fst ?g) # cs" "calls @ snd ?g" k1]
  obtain groups k2 where
    2: "animate_loop settings cb now sm rnd bs
          (nb @ touched t now (fst ?g) # cs, calls @ snd ?g, k1) =
        ((nb @ touched t now (fst ?g) # cs)
           @ concat (map2 (\<lambda>b g. touched (fst g) now (fst (grow settings cb now sm b)) # snd g)
                        bs groups),
         (calls @ snd ?g) @ concat (map (\<lambda>b. snd (grow settings cb now sm b)) bs), k2)"
       "list_all2 (\<lambda>b g. \<forall>c \<in> set (snd g).
                   \<exists>j. c = child_at settings now rnd (fst (grow settings cb now sm b)) j)
         bs groups"
       "maxBranches \<le> length (nb @ touched t now (fst ?g) # cs)
          \<longrightarrow> (\<forall>g \<in> set groups. snd g = [])"
    by blast
  have "animate_loop settings cb now sm rnd (b # bs) (nb, calls, k) =
        (nb @ concat (map2 (\<lambda>b g. touched (fst g) now (fst (grow settings cb now sm b)) # snd g)
                        (b # bs) ((t, cs) # groups)),
         calls @ concat (map (\<lambda>b. snd (grow settings cb now sm b)) (b # bs)), k2)"
    by (simp add: animate_loop_Cons 1(1) 2(1))
  moreover have "list_all2 (\<lambda>b g. \<forall>c \<in> set (snd g).
                   \<exists>j. c = child_at settings now rnd (fst (grow settings cb now sm b)) j)
         (b # bs) ((t, cs) # groups)"
    using 1(2) 2(2) by simp
  moreover have "maxBranches \<le> length nb \<longrightarrow> (\<forall>g \<in> set ((t, cs) # groups). snd g = [])"
    using 1(3) 2(3) by auto
  ultimately show ?case by blast
qed

lemma animateBranches_shape:
  "\<exists>groups k'.
      animateBranches bs growthSpeed settings cb now rnd k =
        (concat (map2 (\<lambda>b g. survivor settings cb now (growthSpeed / 50) (fst g) b
                               # map (pulse settings now) (snd g))
                   (take maxBranches bs) groups),
         concat (map (\<lambda>b. snd (grow settings cb now (growthSpeed / 50) b)) (take maxBranches bs)),
         k')
    \<and> list_all2 (\<lambda>b g. \<forall>c \<in> set (snd g).
                   \<exists>j. c = child_at settings now rnd
                              (fst (grow settings cb now (growthSpeed / 50) b)) j)
         (take maxBranches bs) groups"
proof -
  from animate_loop_shape[of settings cb now "growthSpeed / 50" rnd "take maxBranches bs" "[]" "[]" k]
  obtain groups k' where
    1: "animate_loop settings cb now (growthSpeed / 50) rnd (take maxBranches bs) ([], [], k) =
        ([] @ concat (map2 (\<lambda>b g. touched (fst g) now (fst (grow settings cb now (growthSpeed / 50) b)) # snd g)
                        (take maxBranches bs) groups),
         [] @ concat (map (\<lambda>b. snd (grow settings cb now (growthSpeed / 50) b)) (take maxBranches bs)), k')"
    and 2: "list_all2 (\<lambda>b g. \<forall>c \<in> set (snd g).
                   \<exists>j. c = child_at settings now rnd (fst (grow settings cb now (growthSpeed / 50) b)) j)
         (take maxBranches bs) groups"
    by blast
  have "map (pulse settings now)
          (concat (map2 (\<lambda>b g. touched (fst g) now (fst (grow settings cb now (growthSpeed / 50) b)) # snd g)
                        (take maxBranches bs) groups))
      = concat (map2 (\<lambda>b g. survivor settings cb now (growthSpeed / 50) (fst g) b
                               # map (pulse settings now) (snd g))
                   (take maxBranches bs) groups)"
    by (simp add: map_concat survivor_def comp_def split_def)
  then have "animateBranches bs growthSpeed settings cb now rnd k =
        (concat (map2 (\<lambda>b g. survivor settings cb now (growthSpeed / 50) (fst g) b
                               # map (pulse settings now) (snd g))
                   (take maxBranches bs) groups),
         concat (map (\<lambda>b. snd (grow settings cb now (growthSpeed / 50) b)) (take maxBranches bs)),
         k')"
    using 1 by (simp add: animateBranches_def Let_def)
  with 2 show ?thesis by blast
qed

lemma in_concat_map2:
  "c \<in> set (concat (map2 f xs ys)) \<Longrightarrow>
     \<exists>i. i < length xs \<and> i < length ys \<and> c \<in> set (f (xs ! i) (ys ! i))"
  by (auto simp: set_zip)

subsection \<open>Fields of grown and spawned branches\<close>

lemma grow_fields:
  "startX (fst (grow settings cb now sm b)) = startX b"
  "startY (fst (grow settings cb now sm b)) = startY b"
  "angle (fst (grow settings cb now sm b)) = angle b"
  "length_b (fst (grow settings cb now sm b)) = length_b b"
  "generation (fst (grow settings cb now sm b)) = generation b"
  "opacity (fst (grow settings cb now sm b)) = opacity b"
  "color (fst (grow settings cb now sm b)) = color b"
  "maxProgress (fst (grow settings cb now sm b)) = maxProgress b"
  by (simp_all add: grow_def Let_def)

lemma grow_done:
  "maxProgress b \<le> progress b \<Longrightarrow> grow settings cb now sm b = (b, [])"
  by (simp add: grow_def Let_def)

lemma grow_completes:
  "completes now sm b \<Longrightarrow> progress (fst (grow settings cb now sm b)) = maxProgress b"
  by (simp add: grow_def Let_def completes_def)

lemma grow_calls:
  "snd (grow settings cb now sm b) =
     (if particleEffects settings \<and> cb \<and> completes now sm b then [completion_call b] else [])"
  by (auto simp: grow_def Let_def completes_def completion_call_def)

lemma concat_calls:
  "concat (map (\<lambda>b. snd (grow settings cb now sm b)) bs) =
     (if particleEffects settings \<and> cb then map completion_call (filter (completes now sm) bs)
      else [])"
  by (induction bs) (simp_all add: grow_calls)

lemma survivor_fields:
  "progress (survivor settings cb now sm t b) = progress (fst (grow settings cb now sm b))"
  "maxProgress (survivor settings cb now sm t b) = maxProgress b"
  "completion_call (survivor settings cb now sm t b) = completion_call b"
  by (simp_all add: survivor_def pulse_def touched_def grow_def Let_def completion_call_def)

lemma new_child_fields:
  "progress (fst (new_child settings now rnd b a l k)) = 0"
  "maxProgress (fst (new_child settings now rnd b a l k)) = 40 + rnd k * 30"
  "generation (fst (new_child settings now rnd b a l k)) = generation b + 1"
  "angle (fst (new_child settings now rnd b a l k)) = a"
  "length_b (fst (new_child settings now rnd b a l k)) = l"
  "startX (fst (new_child settings now rnd b a l k)) = startX b + cos (angle b) * length_b b"
  "startY (fst (new_child settings now rnd b a l k)) = startY b + sin (angle b) * length_b b"
  "endX (fst (new_child settings now rnd b a l k))
     = startX b + cos (angle b) * length_b b + cos a * l"
  "endY (fst (new_child settings now rnd b a l k))
     = startY b + sin (angle b) * length_b b + sin a * l"
  "opacity (fst (new_child settings now rnd b a l k))
     = max 0.3 (opacity b - real_of_int (generation b) * 0.15)"
  "lastGrowth (fst (new_child settings now rnd b a l k))
     = now + rnd (snd (getRandomColor (generation b + 1) settings rnd (k + 1))) * 1000"
  by (simp_all add: new_child_def Let_def split: prod.splits)

lemma deviation_bound:
  assumes "0 \<le> r" "r < 1"
  shows "\<bar>(r - 0.5) * pi * 0.4\<bar> \<le> 0.2 * pi" and "\<bar>(r - 0.5) * pi * 0.6\<bar> \<le> 0.3 * pi"
proof -
  have a: "\<bar>r - 0.5\<bar> \<le> 0.5" using assms by (auto simp: abs_if)
  have "\<bar>(r - 0.5) * pi * 0.4\<bar> = \<bar>r - 0.5\<bar> * (pi * 0.4)" by (simp add: abs_mult)
  also have "\<dots> \<le> 0.5 * (pi * 0.4)" by (rule mult_right_mono[OF a]) simp
  finally show "\<bar>(r - 0.5) * pi * 0.4\<bar> \<le> 0.2 * pi" by simp
  have "\<bar>(r - 0.5) * pi * 0.6\<bar> = \<bar>r - 0.5\<bar> * (pi * 0.6)" by (simp add: abs_mult)
  also have "\<dots> \<le> 0.5 * (pi * 0.6)" by (rule mult_right_mono[OF a]) simp
  finally show "\<bar>(r - 0.5) * pi * 0.6\<bar> \<le> 0.3 * pi" by simp
qed

lemma child_at_spawned:
  assumes "random_draws rnd"
  shows "spawned_from settings now b (child_at settings now rnd b j)"
proof -
  have r: "0 \<le> rnd n" "rnd n < 1" for n using assms by (simp_all add: random_draws_def)
  let ?k = "snd (getRandomColor (generation b + 1) settings rnd (j + 2 + 1))"
  have f: "0.6 \<le> 0.6 + rnd (j + 1) * 0.3" "0.6 + rnd (j + 1) * 0.3 < 0.9"
    using r[of "j + 1"] by simp_all
  have fac: "if length_b b = 0 then length_b b * (0.6 + rnd (j + 1) * 0.3) = 0
      else 0.6 \<le> length_b b * (0.6 + rnd (j + 1) * 0.3) / length_b b
         \<and> length_b b * (0.6 + rnd (j + 1) * 0.3) / length_b b < 0.9"
    using r[of "j + 1"] by simp
  have mp: "40 \<le> 40 + rnd (j + 2) * 30" "40 + rnd (j + 2) * 30 < 70"
    using r[of "j + 2"] by simp_all
  have lg: "now \<le> now + rnd ?k * 1000" "now + rnd ?k * 1000 < now + 1000"
    using r[of ?k] by simp_all
  have dev: "\<bar>(if drawingMode settings = Organic then (rnd j - 0.5) * pi * 0.4
                else (rnd j - 0.5) * pi * 0.6)\<bar>
       \<le> (if drawingMode settings = Organic then 0.2 else 0.3) * pi"
    using deviation_bound[OF r[of j]] by simp
  show ?thesis
    unfolding spawned_from_def child_at_def new_child_fields
    using fac mp lg dev r[of "j + 1"] by (simp add: add.commute)
qed

lemma spawned_from_parent:
  "spawned_from settings now (fst (grow settings' cb now' sm b)) c = spawned_from settings now b c"
  by (simp add: spawned_from_def grow_fields)

lemma pulse_child:
  assumes "random_draws rnd"
  shows "pulse settings now (child_at settings' now' rnd b j) = child_at settings' now' rnd b j"
proof -
  have "0 \<le> rnd (j + 2)" using assms by (simp add: random_draws_def)
  then show ?thesis by (simp add: pulse_def child_at_def new_child_fields)
qed

subsection \<open>Seeding\<close>

lemma pointIndex_in_range:
  assumes "i < nat numBranches" "2 \<le> length strokePoints"
  shows "0 \<le> pointIndex strokePoints numBranches i
    \<and> pointIndex strokePoints numBranches i < int (length strokePoints) - 1"
proof -
  have "0 < real_of_int numBranches" "real i < real_of_int numBranches"
    using assms(1) by linarith+
  then have q: "0 \<le> real i / real_of_int numBranches" "real i / real_of_int numBranches < 1"
    by simp_all
  have len: "0 < real (length strokePoints) - 1"
    using assms(2) by simp
  have lo: "0 \<le> (real (length strokePoints) - 1) * (real i / real_of_int numBranches)"
    by (rule mult_nonneg_nonneg) (use q(1) len in simp_all)
  have "(real (length strokePoints) - 1) * (real i / real_of_int numBranches)
      < (real (length strokePoints) - 1) * 1"
    using q(2) len by (intro mult_strict_left_mono) simp_all
  then have hi: "(real (length strokePoints) - 1) * (real i / real_of_int numBranches)
      < real_of_int (int (length strokePoints) - 1)"
    by simp
  show ?thesis
    unfolding pointIndex_def using lo hi by (simp only: zero_le_floor floor_less_iff)
qed







subsection \<open>The invariant\<close>

lemma grow_inv: "0 \<le> sm \<Longrightarrow> branch_inv b \<Longrightarrow> branch_inv (fst (grow settings cb now sm b))"
  by (auto simp: grow_def branch_inv_def Let_def)

lemma touched_inv: "branch_inv (touched t now b) = branch_inv b"
  by (simp add: touched_def branch_inv_def)

lemma pulse_inv: "branch_inv (pulse settings now b) = branch_inv b"
  by (simp add: pulse_def branch_inv_def Let_def)

lemma survivor_inv:
  "0 \<le> sm \<Longrightarrow> branch_inv b \<Longrightarrow> branch_inv (survivor settings cb now sm t b)"
  by (simp add: survivor_def pulse_inv touched_inv grow_inv)

lemma child_at_inv:
  assumes "random_draws rnd" "branch_inv b"
  shows "branch_inv (child_at settings now rnd b j)"
proof -
  have "0 \<le> rnd (j + 2)" using assms(1) by (simp add: random_draws_def)
  then show ?thesis using assms(2)
    by (simp add: child_at_def branch_inv_def new_child_fields)
qed

lemma animateBranches_inv:
  assumes "random_draws rnd" "0 \<le> growthSpeed" "\<forall>b \<in> set bs. branch_inv b"
  shows "\<forall>c \<in> set (fst (animateBranches bs growthSpeed settings cb now rnd k)). branch_inv c"
proof -
  let ?A = "take maxBranches bs"
  let ?sm = "growthSpeed / 50"
  from animateBranches_shape[of bs growthSpeed settings cb now rnd k]
  obtain groups k' where
    full: "animateBranches bs growthSpeed settings cb now rnd k =
        (concat (map2 (\<lambda>b g. survivor settings cb now ?sm (fst g) b
                               # map (pulse settings now) (snd g)) ?A groups),
         concat (map (\<lambda>b. snd (grow settings cb now ?sm b)) ?A), k')"
    and ch: "list_all2 (\<lambda>b g. \<forall>c \<in> set (snd g).
                   \<exists>j. c = child_at settings now rnd (fst (grow settings cb now ?sm b)) j)
         ?A groups"
    by blast
  have out: "fst (animateBranches bs growthSpeed settings cb now rnd k) =
        concat (map2 (\<lambda>b g. survivor settings cb now ?sm (fst g) b
                               # map (pulse settings now) (snd g)) ?A groups)"
    by (simp only: full fst_conv)
  have sm: "0 \<le> ?sm" using assms(2) by simp
  have A: "\<forall>b \<in> set ?A. branch_inv b" using assms(3) by (meson in_set_takeD)
  show ?thesis
  proof
    fix c assume "c \<in> set (fst (animateBranches bs growthSpeed settings cb now rnd k))"
    then obtain i where i: "i < length ?A" "i < length groups"
      and c: "c \<in> set (survivor settings cb now ?sm (fst (groups ! i)) (?A ! i)
                        # map (pulse settings now) (snd (groups ! i)))"
      unfolding out by (blast dest: in_concat_map2)
    from i(1) A have ib: "branch_inv (?A ! i)" by (meson nth_mem)
    from list_all2_nthD[OF ch i(1)] have chg: "\<forall>c \<in> set (snd (groups ! i)).
        \<exists>j. c = child_at settings now rnd (fst (grow settings cb now ?sm (?A ! i))) j" .
    from c have "c = survivor settings cb now ?sm (fst (groups ! i)) (?A ! i)
        \<or> c \<in> pulse settings now ` set (snd (groups ! i))" by simp
    then show "branch_inv c"
    proof
      assume "c = survivor settings cb now ?sm (fst (groups ! i)) (?A ! i)"
      then show ?thesis using survivor_inv[OF sm ib] by simp
    next
      assume "c \<in> pulse settings now ` set (snd (groups ! i))"
      then obtain c0 where c0: "c0 \<in> set (snd (groups ! i))" "c = pulse settings now c0" by blast
      with chg obtain j where
        "c0 = child_at settings now rnd (fst (grow settings cb now ?sm (?A ! i))) j"
        by blast
      then have "branch_inv c0"
        using child_at_inv[OF assms(1) grow_inv[OF sm ib]] by simp
      then show ?thesis using c0(2) by (simp add: pulse_inv)
    qed
  qed
qed

lemma seed_branch_inv:
  assumes "random_draws rnd"
  shows "branch_inv (fst (seed_branch point strokeAngle blm av settings now rnd k))"
proof -
  have "0 \<le> rnd (k + 2)" using assms by (simp add: random_draws_def)
  then show ?thesis
    by (simp add: seed_branch_def Let_def branch_inv_def split: prod.splits)
qed

lemma seed_branches_inv:
  assumes "random_draws rnd"
  shows "\<forall>b \<in> set (fst st). branch_inv b \<Longrightarrow>
    \<forall>b \<in> set (fst (seed_branches n point strokeAngle blm av settings now rnd st)). branch_inv b"
proof (induction n arbitrary: st)
  case 0
  then show ?case by simp
next
  case (Suc n)
  obtain acc k where st: "st = (acc, k)" by (cases st)
  obtain b k' where sb: "seed_branch point strokeAngle blm av settings now rnd k = (b, k')"
    by (cases "seed_branch point strokeAngle blm av settings now rnd k")
  have "branch_inv b" using seed_branch_inv[OF assms, of point strokeAngle blm av settings now k] sb
    by simp
  then have "\<forall>x \<in> set (fst (acc @ [b], k')). branch_inv x" using Suc.prems st by simp
  from Suc.IH[OF this] show ?case by (simp add: st sb)
qed

lemma seed_at_inv:
  assumes "random_draws rnd" "\<forall>b \<in> set (fst st). branch_inv b"
  shows "\<forall>b \<in> set (fst (seed_at strokePoints settings now rnd nB blm av i st)). branch_inv b"
proof -
  obtain acc k where st: "st = (acc, k)" by (cases st)
  show ?thesis
    using assms(2) unfolding st seed_at_def Let_def prod.case
    by (intro seed_branches_inv[OF assms(1)]) simp
qed

lemma generateBranches_inv:
  assumes "random_draws rnd"
  shows "\<forall>b \<in> set (fst (generateBranches strokePoints settings now rnd k)). branch_inv b"
proof (cases "length strokePoints < 2")
  case True
  then show ?thesis by (simp add: generateBranches_def)
next
  case False
  have "\<forall>b \<in> set (fst (fold (seed_at strokePoints settings now rnd nB blm av) is ([], k))).
      branch_inv b" for nB blm av "is"
    by (rule fold_preserves) (simp_all add: seed_at_inv[OF assms])
  then show ?thesis using False by (simp add: generateBranches_def Let_def)
qed

lemma animate_frames_inv:
  assumes "random_draws rnd"
  shows "\<forall>f \<in> set frames. 0 \<le> fst f \<Longrightarrow> \<forall>b \<in> set (fst st). branch_inv b \<Longrightarrow>
    \<forall>b \<in> set (fst (animate_frames frames rnd st)). branch_inv b"
proof (induction frames arbitrary: st)
  case Nil
  then show ?case by simp
next
  case (Cons f frames)
  obtain growthSpeed settings cb now where f: "f = (growthSpeed, settings, cb, now)"
    by (cases f)
  obtain bs k where st: "st = (bs, k)" by (cases st)
  obtain bs' calls k' where a: "animateBranches bs growthSpeed settings cb now rnd k = (bs', calls, k')"
    by (cases "animateBranches bs growthSpeed settings cb now rnd k")
  have "0 \<le> growthSpeed" using Cons.prems(1) f by simp
  from animateBranches_inv[OF assms this, of bs settings cb now k] Cons.prems(2)
  have "\<forall>b \<in> set (fst (bs', k')). branch_inv b" by (simp add: st a)
  from Cons.IH[OF _ this] Cons.prems(1) show ?case by (simp add: f st a)
qed

subsection \<open>The cap\<close>









subsection \<open>The life of a branch\<close>

lemma life_done:
  "maxProgress b \<le> progress b \<Longrightarrow> snd (branch_life frames b) = []"
proof (induction frames arbitrary: b)
  case Nil
  then show ?case by simp
next
  case (Cons f frames)
  obtain settings cb now gs t where f: "f = (settings, cb, now, gs, t)" by (cases f)
  have "maxProgress (survivor settings cb now (gs / 50) t b)
      \<le> progress (survivor settings cb now (gs / 50) t b)"
    using Cons.prems by (simp add: survivor_fields grow_done)
  from Cons.IH[OF this] Cons.prems show ?case
    by (simp add: f grow_done split: prod.splits)
qed

lemma life_once:
  "snd (branch_life frames b) = [] \<or> snd (branch_life frames b) = [completion_call b]"
proof (induction frames arbitrary: b)
  case Nil
  then show ?case by simp
next
  case (Cons f frames)
  obtain settings cb now gs t where f: "f = (settings, cb, now, gs, t)" by (cases f)
  let ?s = "survivor settings cb now (gs / 50) t b"
  have step: "snd (branch_life (f # frames) b)
      = snd (grow settings cb now (gs / 50) b) @ snd (branch_life frames ?s)"
    by (simp add: f split: prod.splits)
  show ?case
  proof (cases "particleEffects settings \<and> cb \<and> completes now (gs / 50) b")
    case True
    then have "maxProgress ?s \<le> progress ?s"
      by (simp add: survivor_fields grow_completes)
    from life_done[OF this] True show ?thesis by (simp add: step grow_calls)
  next
    case False
    then have "snd (grow settings cb now (gs / 50) b) = []"
      by (simp only: grow_calls if_False)
    then have "snd (branch_life (f # frames) b) = snd (branch_life frames ?s)"
      by (simp only: step append_Nil)
    with Cons.IH[of ?s] show ?thesis by (simp only: survivor_fields)
  qed
qed

subsection \<open>Examples\<close>

lemma draws_zero: "random_draws (\<lambda>n. 0)"
  by (simp add: random_draws_def)

lemma js_rem_2020: "js_rem 2020 100 = 20"
  by (simp add: js_rem_def)

lemma ripe_animated:
  "animateBranches [ripe] 50 neural15 True 2020 (\<lambda>n. 0) 0
     = ([ripe\<lparr>lastGrowth := 2020\<rparr>, ripe_child], [], 5)"
  by (simp add: animateBranches_def animate_loop_def animate_branch_def grow_def spawn_child_def
      new_child_def getRandomColor_def pulse_def js_rem_2020 maxBranches_def ripe_def
      ripe_child_def neural15_def Let_def branchProbability_of_def maxGenerations_of_def
      growthDelay_of_def numeral_eq_Suc)

lemma stroke0_seeded:
  "map maxProgress (fst (generateBranches stroke0 neural15 2020 (\<lambda>n. 0) 0)) = [60]"
  by (simp add: generateBranches_def numBranches_of_def seed_at_def pointIndex_def seed_branch_def
      getRandomColor_def stroke0_def neural15_def Let_def)






section \<open>The claims on the growth engine\<close>




text \<open>
  C2. The claim: the completion callback is invoked exactly once for every branch, at the
  call in which its progress reaches \<open>maxProgress\<close>, never zero times. The call is guarded
  by \<^verbatim>\<open>settings.particleEffects && onParticleGeneration\<close>: with particle effects
  switched off, a branch at progress 59.5 of 60 reaches 60 in the call and the callback is
  not invoked.
\<close>

theorem no_callback_without_particle_effects:
  "progress nearly < maxProgress nearly
   \<and> animateBranches [nearly] 50 (neural15\<lparr>particleEffects := False\<rparr>) True 2020 (\<lambda>n. 0) 0
      = ([nearly\<lparr>progress := maxProgress nearly, lastGrowth := 2020\<rparr>], [], 1)"
  by (simp add: animateBranches_def animate_loop_def animate_branch_def grow_def
      pulse_def js_rem_2020 maxBranches_def nearly_def neural15_def Let_def
      branchProbability_of_def maxGenerations_of_def growthDelay_of_def)

text \<open>
  C2, as amended. When particle effects are enabled and a callback is passed, one call of
  \<open>animateBranches\<close> invokes the callback, with the end point and the color of the branch,
  once for each of the first 500 branches whose progress is below \<open>maxProgress\<close> before
  the call and reaches it in the call, in the order of the branches, and for no other
  branch; when particle effects are disabled or no callback is passed it invokes nothing.
  Every processed branch is in the result as its \<open>survivor\<close>, followed by its children,
  and over any sequence of calls that process a branch the callback is invoked for it at
  most once, with its end point and color.
\<close>

theorem completion_callback:
  "fst (snd (animateBranches branches growthSpeed settings hasCallback now rnd k)) =
     (if particleEffects settings \<and> hasCallback
      then map completion_call
             (filter (completes now (growthSpeed / 50)) (take maxBranches branches))
      else [])
   \<and> (\<exists>groups. length groups = length (take maxBranches branches)
        \<and> fst (animateBranches branches growthSpeed settings hasCallback now rnd k) =
            concat (map2 (\<lambda>b g. survivor settings hasCallback now (growthSpeed / 50) (fst g) b
                                  # snd g)
                      (take maxBranches branches) groups))
   \<and> (snd (branch_life frames b) = [] \<or> snd (branch_life frames b) = [completion_call b])"
proof -
  let ?A = "take maxBranches branches"
  let ?sm = "growthSpeed / 50"
  from animateBranches_shape[of branches growthSpeed settings hasCallback now rnd k]
  obtain groups k' where
    full: "animateBranches branches growthSpeed settings hasCallback now rnd k =
        (concat (map2 (\<lambda>b g. survivor settings hasCallback now ?sm (fst g) b
                               # map (pulse settings now) (snd g)) ?A groups),
         concat (map (\<lambda>b. snd (grow settings hasCallback now ?sm b)) ?A), k')"
    and ch: "list_all2 (\<lambda>b g. \<forall>c \<in> set (snd g).
                   \<exists>j. c = child_at settings now rnd (fst (grow settings hasCallback now ?sm b)) j)
         ?A groups"
    by blast
  define groups' where "groups' = map (\<lambda>g. (fst g, map (pulse settings now) (snd g))) groups"
  have len: "length groups' = length ?A"
    using list_all2_lengthD[OF ch] by (simp add: groups'_def)
  have out: "fst (animateBranches branches growthSpeed settings hasCallback now rnd k) =
      concat (map2 (\<lambda>b g. survivor settings hasCallback now ?sm (fst g) b # snd g) ?A groups')"
    by (simp add: full groups'_def zip_map2 split_def comp_def)
  have calls: "fst (snd (animateBranches branches growthSpeed settings hasCallback now rnd k)) =
     (if particleEffects settings \<and> hasCallback
      then map completion_call (filter (completes now ?sm) ?A) else [])"
    by (simp only: full fst_conv snd_conv concat_calls)
  from len out have "\<exists>groups. length groups = length ?A
        \<and> fst (animateBranches branches growthSpeed settings hasCallback now rnd k) =
            concat (map2 (\<lambda>b g. survivor settings hasCallback now ?sm (fst g) b # snd g)
                      ?A groups)" by blast
  with calls life_once[of frames b] show ?thesis by blast
qed

text \<open>
  C8. For every branch at all times, after seeding and after any number of step calls,
  \<open>0 \<le> progress \<le> maxProgress\<close> and \<open>generation \<ge> 0\<close>: every branch that
  \<open>generateBranches\<close> returns satisfies it, and every sequence of calls of
  \<open>animateBranches\<close> keeps it. The draws of \<^verbatim>\<open>Math.random()\<close> lie in \<open>[0, 1)\<close> and the
  growth speed, a slider from 10 to 100, is not negative.
\<close>

theorem branch_invariant:
  assumes "random_draws rnd" and "\<forall>f \<in> set frames. 0 \<le> fst f"
  shows "(\<forall>b \<in> set (fst (generateBranches strokePoints settings now rnd k)). branch_inv b)
    \<and> ((\<forall>b \<in> set branches. branch_inv b) \<longrightarrow>
         (\<forall>b \<in> set (fst (animate_frames frames rnd (branches, k'))). branch_inv b))"
  using generateBranches_inv[OF assms(1)] animate_frames_inv[OF assms, of "(branches, k')"]
  by simp

theorem branch_invariant_witness:
  "random_draws (\<lambda>n. 0) \<and> list_all (\<lambda>f. 0 \<le> fst f) frames0
   \<and> list_all branch_inv (fst (generateBranches stroke0 neural15 2020 (\<lambda>n. 0) 0))
   \<and> fst (generateBranches stroke0 neural15 2020 (\<lambda>n. 0) 0) \<noteq> []
   \<and> list_all branch_inv [ripe]
   \<and> list_all branch_inv (fst (animate_frames frames0 (\<lambda>n. 0) ([ripe], 0)))"
proof -
  have f: "\<forall>f \<in> set frames0. 0 \<le> fst f" by (simp add: frames0_def)
  have r: "\<forall>b \<in> set [ripe]. branch_inv b" by (simp add: branch_inv_def ripe_def)
  have ne: "fst (generateBranches stroke0 neural15 2020 (\<lambda>n. 0) 0) \<noteq> []"
    using stroke0_seeded by auto
  from branch_invariant[OF draws_zero f, of stroke0 neural15 2020 0 "[ripe]" 0] r
  show ?thesis using f ne by (simp add: list_all_iff draws_zero)
qed

text \<open>
  C9. The claim: a spawned child has fresh \<open>progress\<close>, \<open>maxProgress\<close> and \<open>lastGrowth\<close> as
  at seeding. Seeding draws \<open>maxProgress\<close> as \<open>60 + random * 40\<close> and \<open>lastGrowth\<close> as
  \<open>now + random * 2000\<close>; the spawn loop draws \<open>40 + random * 30\<close> and
  \<open>now + random * 1000\<close>. With all draws 0 the child of a branch has \<open>maxProgress\<close> 40,
  the seeded branch of a stroke has 60.
\<close>

theorem child_not_as_seeded:
  "maxProgress (fst (animateBranches [ripe] 50 neural15 True 2020 (\<lambda>n. 0) 0) ! 1) = 40
   \<and> map maxProgress (fst (generateBranches stroke0 neural15 2020 (\<lambda>n. 0) 0)) = [60]"
  by (simp add: ripe_animated stroke0_seeded) (simp add: ripe_child_def)

text \<open>
  C9, as amended. The result of \<open>animateBranches\<close> is, for each processed branch in turn,
  the branch followed by the children it spawned in this call, and every such child
  starts at its parent's end point, ends at its own start plus its length along its
  angle, has generation = parent generation + 1, an angle within \<open>0.3 \<pi>\<close> (\<open>0.2 \<pi>\<close> in
  organic mode) of the parent's angle, length = parent length times a factor in
  \<open>[0.6, 0.9)\<close>, opacity = \<open>max 0.3 (parent opacity - 0.15 * parent generation)\<close>,
  progress 0, \<open>maxProgress\<close> in \<open>[40, 70)\<close> and \<open>lastGrowth\<close> in \<open>[now, now + 1000)\<close>.
\<close>

theorem children_spawned_from_parents:
  assumes "random_draws rnd"
  shows "\<exists>groups.
      fst (animateBranches branches growthSpeed settings hasCallback now rnd k) =
        concat (map2 (\<lambda>b g. survivor settings hasCallback now (growthSpeed / 50) (fst g) b # snd g)
                  (take maxBranches branches) groups)
    \<and> list_all2 (\<lambda>b g. \<forall>c \<in> set (snd g). spawned_from settings now b c)
        (take maxBranches branches) groups"
proof -
  let ?A = "take maxBranches branches"
  let ?sm = "growthSpeed / 50"
  from animateBranches_shape[of branches growthSpeed settings hasCallback now rnd k]
  obtain groups k' where
    full: "animateBranches branches growthSpeed settings hasCallback now rnd k =
        (concat (map2 (\<lambda>b g. survivor settings hasCallback now ?sm (fst g) b
                               # map (pulse settings now) (snd g)) ?A groups),
         concat (map (\<lambda>b. snd (grow settings hasCallback now ?sm b)) ?A), k')"
    and ch: "list_all2 (\<lambda>b g. \<forall>c \<in> set (snd g).
                   \<exists>j. c = child_at settings now rnd (fst (grow settings hasCallback now ?sm b)) j)
         ?A groups"
    by blast
  have same: "map (pulse settings now) (snd g) = snd g \<and>
      (\<forall>c \<in> set (snd g). spawned_from settings now b c)"
    if "\<forall>c \<in> set (snd g).
          \<exists>j. c = child_at settings now rnd (fst (grow settings hasCallback now ?sm b)) j"
    for b and g :: "bool \<times> Branch list"
  proof -
    have "\<forall>c \<in> set (snd g). pulse settings now c = c \<and> spawned_from settings now b c"
    proof
      fix c assume "c \<in> set (snd g)"
      with that obtain j where
        c: "c = child_at settings now rnd (fst (grow settings hasCallback now ?sm b)) j" by blast
      show "pulse settings now c = c \<and> spawned_from settings now b c"
        using pulse_child[OF assms] child_at_spawned[OF assms] spawned_from_parent
        unfolding c by blast
    qed
    then show ?thesis by (simp add: map_idI)
  qed
  have l2: "list_all2 (\<lambda>b g. map (pulse settings now) (snd g) = snd g \<and>
      (\<forall>c \<in> set (snd g). spawned_from settings now b c)) ?A groups"
    by (rule list_all2_mono[OF ch]) (rule same)
  have eq: "map2 (\<lambda>b g. survivor settings hasCallback now ?sm (fst g) b
                               # map (pulse settings now) (snd g)) ?A groups
      = map2 (\<lambda>b g. survivor settings hasCallback now ?sm (fst g) b # snd g) ?A groups"
    using l2 by (induction rule: list_all2_induct) simp_all
  have "list_all2 (\<lambda>b g. \<forall>c \<in> set (snd g). spawned_from settings now b c) ?A groups"
    by (rule list_all2_mono[OF l2]) simp
  moreover have "fst (animateBranches branches growthSpeed settings hasCallback now rnd k) =
        concat (map2 (\<lambda>b g. survivor settings hasCallback now ?sm (fst g) b # snd g) ?A groups)"
    by (simp only: full fst_conv eq)
  ultimately show ?thesis by blast
qed

theorem children_spawned_from_parents_witness:
  "random_draws (\<lambda>n. 0)
   \<and> fst (animateBranches [ripe] 50 neural15 True 2020 (\<lambda>n. 0) 0)
       = [ripe\<lparr>lastGrowth := 2020\<rparr>, ripe_child]
   \<and> spawned_from neural15 2020 ripe ripe_child"
proof -
  from children_spawned_from_parents[OF draws_zero, of "[ripe]" 50 neural15 True 2020 0]
  obtain groups where
    g: "[ripe\<lparr>lastGrowth := 2020\<rparr>, ripe_child] =
        concat (map2 (\<lambda>b g. survivor neural15 True 2020 (50 / 50) (fst g) b # snd g)
                  (take maxBranches [ripe]) groups)"
       "list_all2 (\<lambda>b g. \<forall>c \<in> set (snd g). spawned_from neural15 2020 b c)
          (take maxBranches [ripe]) groups"
    unfolding ripe_animated fst_conv by blast
  have "take maxBranches [ripe] = [ripe]" by (simp add: maxBranches_def)
  with g obtain t cs where "groups = [(t, cs)]" "ripe_child \<in> set cs"
    "\<forall>c \<in> set cs. spawned_from neural15 2020 ripe c"
    by (auto simp: list_all2_Cons1)
  then have "spawned_from neural15 2020 ripe ripe_child" by blast
  then show ?thesis by (simp add: draws_zero ripe_animated)
qed

end
